theory Spec2Isabelle
  imports Complex_Main "HOL-Library.AList" "HOL-Library.Sublist"
begin

section \<open>Vector-space search engine: index builder and query engine\<close>

text \<open>
  The development embeds \<^verbatim>\<open>src/indexer_fixed.py\<close> (class \<^verbatim>\<open>IndexerFixed\<close>) and
  \<^verbatim>\<open>src/search.py\<close> (class \<^verbatim>\<open>SearchEngine\<close>).

  Conventions of the embedding:
  \<^item> a Python \<^verbatim>\<open>dict\<close> is an association list in insertion order with pairwise different
    keys; \<^verbatim>\<open>d[k] = v\<close> is \<open>AList.update k v d\<close> (an existing key keeps its place, a new
    key goes to the end), \<^verbatim>\<open>k in d\<close> and \<^verbatim>\<open>d[k]\<close> are \<open>map_of d k\<close>, \<^verbatim>\<open>len(d)\<close> is the
    length of the list;
  \<^item> a Python \<^verbatim>\<open>int\<close> is an \<open>int\<close>; a Python \<^verbatim>\<open>float\<close> is a \<open>real\<close>: the arithmetic of the
    program is read as exact real arithmetic, \<^verbatim>\<open>math.log\<close> as \<open>ln\<close> and \<^verbatim>\<open>math.sqrt\<close> as
    \<open>sqrt\<close>;
  \<^item> an exception that leaves a function is a value \<open>Inl e\<close> of a sum type;
  \<^item> the modules \<^verbatim>\<open>utils\<close>, \<^verbatim>\<open>stop_words\<close> and \<^verbatim>\<open>porterstemmer\<close> are not part of the
    sources; the functions the two classes call from them are the fields of the record
    \<open>collab\<close>, a parameter of every definition that tokenises text.
\<close>

datatype py_error = KeyError | ValueError | FileNotFoundError

record collab =
  splitchars :: "string \<Rightarrow> string list"
  normalize_token :: "string \<Rightarrow> string"
  is_stop_word :: "string \<Rightarrow> bool"
  starts_with_punctuation :: "string \<Rightarrow> bool"
  is_short :: "string \<Rightarrow> bool"
  is_number :: "string \<Rightarrow> bool"
  stem :: "string \<Rightarrow> string"

text \<open>
  The filter chain and the stemming step that \<^verbatim>\<open>process_document_content\<close> (lines 134-147)
  and \<^verbatim>\<open>parse_query\<close> (lines 96-109) both apply to one token: \<open>None\<close> is \<^verbatim>\<open>continue\<close>.
\<close>

definition filter_and_stem :: "collab \<Rightarrow> string \<Rightarrow> string option" where
  "filter_and_stem C token =
     (let token_lower = normalize_token C token in
      if is_stop_word C token_lower then None
      else if starts_with_punctuation C token_lower then None
      else if is_short C token_lower then None
      else if is_number C token_lower then None
      else Some (stem C token_lower))"

text \<open>\<^verbatim>\<open>term_freq[key] += 1\<close> on a \<^verbatim>\<open>defaultdict(int)\<close>.\<close>

definition incr :: "('k \<times> int) list \<Rightarrow> 'k \<Rightarrow> ('k \<times> int) list" where
  "incr term_freq key =
     AList.update key ((case map_of term_freq key of None \<Rightarrow> 0 | Some c \<Rightarrow> c) + 1) term_freq"

text \<open>\<^verbatim>\<open>math.log\<close> raises \<^verbatim>\<open>ValueError\<close> outside the positive reals.\<close>

definition py_log :: "real \<Rightarrow> py_error + real" where
  "py_log x = (if 0 < x then Inr (ln x) else Inl ValueError)"

fun map_err :: "('a \<Rightarrow> 'e + 'b) \<Rightarrow> 'a list \<Rightarrow> 'e + 'b list" where
  "map_err f [] = Inr []"
| "map_err f (x # xs) =
     (case f x of
        Inl e \<Rightarrow> Inl e
      | Inr y \<Rightarrow> (case map_err f xs of Inl e \<Rightarrow> Inl e | Inr ys \<Rightarrow> Inr (y # ys)))"

subsection \<open>The index builder (\<^verbatim>\<open>IndexerFixed\<close>)\<close>

text \<open>
  A posting of the builder is the dictionary \<^verbatim>\<open>{'tf': freq}\<close>, to which
  \<^verbatim>\<open>calculate_tf_idf\<close> adds the keys \<^verbatim>\<open>'tf_idf'\<close>, \<^verbatim>\<open>'idf'\<close> and \<^verbatim>\<open>'df'\<close>: a key that is
  not there yet is \<open>None\<close>.
\<close>

record bposting =
  b_tf :: int
  b_tf_idf :: "real option"
  b_idf :: "real option"
  b_df :: "int option"

type_synonym bpostings = "(int \<times> (int \<times> bposting) list) list"

record indexer =
  documents :: "(string \<times> int) list"
  terms :: "(string \<times> int) list"
  postings :: bpostings
  doc_lengths :: "(int \<times> real) list"
  next_doc_id :: int
  next_term_id :: int
  total_docs :: int
  total_terms :: int

definition indexer_init :: indexer where
  "indexer_init =
     \<lparr>documents = [], terms = [], postings = [], doc_lengths = [],
      next_doc_id = 1, next_term_id = 1, total_docs = 0, total_terms = 0\<rparr>"

text \<open>Lines 132-150: the term frequencies of one document, in first-seen order.\<close>

definition count_terms :: "collab \<Rightarrow> string list \<Rightarrow> (string \<times> int) list" where
  "count_terms C tokens =
     foldl (\<lambda>term_freq token.
              case filter_and_stem C token of
                None \<Rightarrow> term_freq
              | Some stemmed \<Rightarrow> incr term_freq stemmed) [] tokens"

text \<open>
  Lines 154-159, the body of the loop over \<^verbatim>\<open>term_freq.items()\<close>;
  \<^verbatim>\<open>self.postings\<close> is a \<^verbatim>\<open>defaultdict(dict)\<close>, so a term identifier without postings
  starts from the empty dictionary.
\<close>

definition add_posting :: "int \<Rightarrow> indexer \<Rightarrow> string \<times> int \<Rightarrow> indexer" where
  "add_posting doc_id s tf =
     (case tf of (term, freq) \<Rightarrow>
        let s1 = (case map_of (terms s) term of
                    None \<Rightarrow> s\<lparr>terms := AList.update term (next_term_id s) (terms s),
                               next_term_id := next_term_id s + 1\<rparr>
                  | Some _ \<Rightarrow> s);
            term_id = (case map_of (terms s) term of
                         None \<Rightarrow> next_term_id s
                       | Some i \<Rightarrow> i);
            doc_postings = (case map_of (postings s1) term_id of
                              None \<Rightarrow> []
                            | Some dp \<Rightarrow> dp)
        in s1\<lparr>postings :=
                 AList.update term_id
                   (AList.update doc_id
                      \<lparr>b_tf = freq, b_tf_idf = None, b_idf = None, b_df = None\<rparr> doc_postings)
                   (postings s1)\<rparr>)"

text \<open>
  \<^verbatim>\<open>process_document_content\<close> (lines 121-165). The collaborators are total functions
  here, so the \<^verbatim>\<open>except\<close> branch that returns \<^verbatim>\<open>None\<close> has no counterpart; the result is
  the document identifier and the updated builder.
\<close>

definition process_document_content ::
    "collab \<Rightarrow> indexer \<Rightarrow> string \<Rightarrow> string \<Rightarrow> int \<times> indexer" where
  "process_document_content C s content doc_path =
     (let doc_id = next_doc_id s;
          s1 = s\<lparr>documents := AList.update doc_path doc_id (documents s),
                 next_doc_id := next_doc_id s + 1\<rparr>;
          term_freq = count_terms C (splitchars C content)
      in (doc_id, foldl (add_posting doc_id) s1 term_freq))"

text \<open>\<^verbatim>\<open>calculate_tf_idf\<close> (lines 167-184): the body of the loop over the terms.\<close>

definition weigh_term ::
    "int \<Rightarrow> int \<times> (int \<times> bposting) list \<Rightarrow> py_error + int \<times> (int \<times> bposting) list" where
  "weigh_term N entry =
     (case entry of (term_id, doc_postings) \<Rightarrow>
        let df = int (length doc_postings) in
        if df = 0 then Inr (term_id, doc_postings)
        else (case py_log (real_of_int N / real_of_int df) of
                Inl e \<Rightarrow> Inl e
              | Inr idf \<Rightarrow>
                  Inr (term_id,
                       map (\<lambda>(doc_id, posting).
                              (doc_id, posting\<lparr>b_tf_idf := Some (real_of_int (b_tf posting) * idf),
                                               b_idf := Some idf, b_df := Some df\<rparr>))
                           doc_postings)))"

definition calculate_tf_idf :: "indexer \<Rightarrow> py_error + indexer" where
  "calculate_tf_idf s =
     (let N = int (length (documents s)) in
      case map_err (weigh_term N) (postings s) of
        Inl e \<Rightarrow> Inl e
      | Inr ps \<Rightarrow> Inr (s\<lparr>postings := ps\<rparr>))"

text \<open>
  \<^verbatim>\<open>calculate_document_lengths\<close> (lines 186-196). The inner loop adds up the squares from
  left to right; \<^verbatim>\<open>doc_postings[doc_id]['tf_idf']\<close> is a \<^verbatim>\<open>KeyError\<close> on a posting that
  has no weight yet.
\<close>

fun sum_squares :: "int \<Rightarrow> real \<Rightarrow> bpostings \<Rightarrow> py_error + real" where
  "sum_squares doc_id acc [] = Inr acc"
| "sum_squares doc_id acc ((term_id, doc_postings) # rest) =
     (case map_of doc_postings doc_id of
        None \<Rightarrow> sum_squares doc_id acc rest
      | Some posting \<Rightarrow>
          (case b_tf_idf posting of
             None \<Rightarrow> Inl KeyError
           | Some tf_idf \<Rightarrow> sum_squares doc_id (acc + tf_idf * tf_idf) rest))"

fun document_lengths_loop ::
    "bpostings \<Rightarrow> (int \<times> real) list \<Rightarrow> (string \<times> int) list \<Rightarrow> py_error + (int \<times> real) list" where
  "document_lengths_loop ps lens [] = Inr lens"
| "document_lengths_loop ps lens ((doc_path, doc_id) # rest) =
     (case sum_squares doc_id 0 ps of
        Inl e \<Rightarrow> Inl e
      | Inr doc_vector_length \<Rightarrow>
          document_lengths_loop ps (AList.update doc_id (sqrt doc_vector_length) lens) rest)"

definition calculate_document_lengths :: "indexer \<Rightarrow> py_error + indexer" where
  "calculate_document_lengths s =
     (case document_lengths_loop (postings s) (doc_lengths s) (documents s) of
        Inl e \<Rightarrow> Inl e
      | Inr lens \<Rightarrow> Inr (s\<lparr>doc_lengths := lens\<rparr>))"

text \<open>
  \<^verbatim>\<open>build_index\<close> (lines 32-119). Walking the corpus path, reading the files and cutting a
  large file at a separator (lines 36-98) is the corpus segmentation; the model starts
  from its outcome, the sequence of calls \<^verbatim>\<open>process_document_content(content, doc_path)\<close>,
  given as the list of pairs \<open>(doc_path, content)\<close>. The second component of the result is
  the value \<^verbatim>\<open>build_index\<close> returns.
\<close>

definition process_all :: "collab \<Rightarrow> indexer \<Rightarrow> (string \<times> string) list \<Rightarrow> indexer \<times> int" where
  "process_all C s docs =
     foldl (\<lambda>(s, processed_count) (doc_path, content).
              case process_document_content C s content doc_path of
                (doc_id, s') \<Rightarrow> (s', if doc_id \<noteq> 0 then processed_count + 1 else processed_count))
           (s, 0) docs"

text \<open>
  Lines 103-113 of \<^verbatim>\<open>build_index\<close>: the two passes over the completed postings and the
  statistics (the operation the specification calls \<^verbatim>\<open>finalize\<close>).
\<close>

definition finalize :: "indexer \<Rightarrow> py_error + indexer" where
  "finalize s =
     (case calculate_tf_idf s of
        Inl e \<Rightarrow> Inl e
      | Inr s1 \<Rightarrow>
          (case calculate_document_lengths s1 of
             Inl e \<Rightarrow> Inl e
           | Inr s2 \<Rightarrow> Inr (s2\<lparr>total_docs := int (length (documents s2)),
                                total_terms := int (length (terms s2))\<rparr>)))"

definition build_index :: "collab \<Rightarrow> (string \<times> string) list \<Rightarrow> py_error + indexer \<times> bool" where
  "build_index C docs =
     (case process_all C indexer_init docs of
        (s, processed_count) \<Rightarrow>
          if processed_count = 0 then Inr (s, False)
          else (case finalize s of Inl e \<Rightarrow> Inl e | Inr s' \<Rightarrow> Inr (s', True)))"

subsection \<open>The query engine (\<^verbatim>\<open>SearchEngine\<close>)\<close>

record posting =
  p_tf_idf :: real
  p_tf :: int
  p_idf :: real
  p_df :: int

type_synonym se_postings = "(int \<times> (int \<times> posting) list) list"

record engine =
  se_documents :: "(string \<times> int) list"
  se_documents_inv :: "(int \<times> string) list"
  se_terms :: "(string \<times> int) list"
  se_terms_inv :: "(int \<times> string) list"
  se_postings :: se_postings
  se_doc_lengths :: "(int \<times> real) list"
  se_total_docs :: int
  se_total_terms :: int

record parsed_term =
  original :: string
  processed :: string
  term_id :: int

record scored =
  doc_id :: int
  similarity :: real
  doc_path :: string

text \<open>The state \<^verbatim>\<open>__init__\<close> sets up before it calls \<^verbatim>\<open>load_index\<close> (lines 15-24).\<close>

definition engine_init :: engine where
  "engine_init =
     \<lparr>se_documents = [], se_documents_inv = [], se_terms = [], se_terms_inv = [],
      se_postings = [], se_doc_lengths = [], se_total_docs = 0, se_total_terms = 0\<rparr>"

text \<open>\<^verbatim>\<open>parse_query\<close> (lines 89-122); a stem that is not in \<^verbatim>\<open>self.terms\<close> is only printed.\<close>

fun parse_tokens :: "collab \<Rightarrow> engine \<Rightarrow> string list \<Rightarrow> parsed_term list" where
  "parse_tokens C e [] = []"
| "parse_tokens C e (token # tokens) =
     (case filter_and_stem C token of
        None \<Rightarrow> parse_tokens C e tokens
      | Some stemmed \<Rightarrow>
          (case map_of (se_terms e) stemmed of
             Some tid \<Rightarrow>
               \<lparr>original = token, processed = stemmed, term_id = tid\<rparr> # parse_tokens C e tokens
           | None \<Rightarrow> parse_tokens C e tokens))"

definition parse_query :: "collab \<Rightarrow> engine \<Rightarrow> string \<Rightarrow> parsed_term list" where
  "parse_query C e query = parse_tokens C e (splitchars C query)"

text \<open>
  \<^verbatim>\<open>build_query_vector\<close> (lines 124-141). \<^verbatim>\<open>N / df\<close> is a true division, and
  \<^verbatim>\<open>math.log(N / df)\<close> raises \<^verbatim>\<open>ValueError\<close> when the document table is empty.
\<close>

definition query_weight :: "engine \<Rightarrow> int \<times> int \<Rightarrow> py_error + (int \<times> real) option" where
  "query_weight e entry =
     (case entry of (tid, tf) \<Rightarrow>
        (case map_of (se_postings e) tid of
           None \<Rightarrow> Inr None
         | Some doc_postings \<Rightarrow>
             let df = int (length doc_postings) in
             if 0 < df
             then (case py_log (real_of_int (se_total_docs e) / real_of_int df) of
                     Inl er \<Rightarrow> Inl er
                   | Inr idf \<Rightarrow> Inr (Some (tid, real_of_int tf * idf)))
             else Inr (Some (tid, 0))))"

definition build_query_vector :: "engine \<Rightarrow> parsed_term list \<Rightarrow> py_error + (int \<times> real) list" where
  "build_query_vector e parsed_terms =
     (let term_freq = foldl (\<lambda>tf term_info. incr tf (term_id term_info)) [] parsed_terms in
      case map_err (query_weight e) term_freq of
        Inl er \<Rightarrow> Inl er
      | Inr ws \<Rightarrow> Inr (List.map_filter (\<lambda>w. w) ws))"

text \<open>
  \<^verbatim>\<open>get_documents_with_all_terms\<close> (lines 143-162). A Python \<^verbatim>\<open>set\<close> of document
  identifiers is a duplicate-free list of its members. \<^verbatim>\<open>self.postings\<close> is a
  \<^verbatim>\<open>defaultdict(dict)\<close> (line 55): subscripting it at a key it does not hold stores an
  empty dictionary under that key, which is what \<open>dd_getitem\<close> returns as the new
  postings. The result is the postings store after the call and the candidate set.
\<close>

definition dd_getitem :: "se_postings \<Rightarrow> int \<Rightarrow> se_postings \<times> (int \<times> posting) list" where
  "dd_getitem ps key =
     (case map_of ps key of
        Some doc_postings \<Rightarrow> (ps, doc_postings)
      | None \<Rightarrow> (ps @ [(key, [])], []))"

fun intersect_terms :: "se_postings \<Rightarrow> int list \<Rightarrow> parsed_term list \<Rightarrow> int list" where
  "intersect_terms ps candidate_docs [] = candidate_docs"
| "intersect_terms ps candidate_docs (term_info # rest) =
     (case map_of ps (term_id term_info) of
        Some doc_postings \<Rightarrow>
          intersect_terms ps (filter (\<lambda>d. d \<in> set (map fst doc_postings)) candidate_docs) rest
      | None \<Rightarrow> [])"

definition get_documents_with_all_terms :: "engine \<Rightarrow> parsed_term list \<Rightarrow> engine \<times> int list" where
  "get_documents_with_all_terms e parsed_terms =
     (case parsed_terms of
        [] \<Rightarrow> (e, [])
      | first # rest \<Rightarrow>
          (case dd_getitem (se_postings e) (term_id first) of
             (ps, doc_postings) \<Rightarrow>
               (e\<lparr>se_postings := ps\<rparr>, intersect_terms ps (map fst doc_postings) rest)))"

text \<open>
  The scoring loop of \<^verbatim>\<open>search\<close> (lines 197-224). Every key of the query vector passed
  the test \<^verbatim>\<open>term_id in self.postings\<close> of line 136, so \<^verbatim>\<open>self.postings[term_id]\<close> in
  line 201 finds its key and stores nothing.
\<close>

definition doc_vector :: "engine \<Rightarrow> (int \<times> real) list \<Rightarrow> int \<Rightarrow> (int \<times> real) list" where
  "doc_vector e query_vector d =
     List.map_filter
       (\<lambda>(tid, weight).
          case map_of (case map_of (se_postings e) tid of None \<Rightarrow> [] | Some dp \<Rightarrow> dp) d of
            None \<Rightarrow> None
          | Some p \<Rightarrow> Some (tid, p_tf_idf p))
       query_vector"

definition dot_product :: "(int \<times> real) list \<Rightarrow> (int \<times> real) list \<Rightarrow> real" where
  "dot_product query_vector dv =
     foldl (\<lambda>acc (tid, q_weight).
              case map_of dv tid of None \<Rightarrow> acc | Some w \<Rightarrow> acc + q_weight * w)
           0 query_vector"

definition doc_length_of :: "engine \<Rightarrow> int \<Rightarrow> real" where
  "doc_length_of e d = (case map_of (se_doc_lengths e) d of None \<Rightarrow> 1 | Some l \<Rightarrow> l)"

definition cosine :: "engine \<Rightarrow> (int \<times> real) list \<Rightarrow> real \<Rightarrow> int \<Rightarrow> real" where
  "cosine e query_vector query_length d =
     (let dot = dot_product query_vector (doc_vector e query_vector d);
          doc_length = doc_length_of e d
      in if 0 < doc_length \<and> 0 < query_length then dot / (doc_length * query_length) else 0)"

fun score_docs :: "engine \<Rightarrow> (int \<times> real) list \<Rightarrow> real \<Rightarrow> int list \<Rightarrow> py_error + scored list" where
  "score_docs e query_vector query_length [] = Inr []"
| "score_docs e query_vector query_length (d # ds) =
     (let sim = cosine e query_vector query_length d in
      if 0 < sim
      then (case map_of (se_documents_inv e) d of
              None \<Rightarrow> Inl KeyError
            | Some path \<Rightarrow>
                (case score_docs e query_vector query_length ds of
                   Inl er \<Rightarrow> Inl er
                 | Inr results \<Rightarrow>
                     Inr (\<lparr>doc_id = d, similarity = sim, doc_path = path\<rparr> # results)))
      else score_docs e query_vector query_length ds)"

text \<open>\<^verbatim>\<open>results[:top_k]\<close>: a negative bound counts from the end of the list.\<close>

definition slice_to :: "'a list \<Rightarrow> int \<Rightarrow> 'a list" where
  "slice_to xs k = (if 0 \<le> k then take (nat k) xs else take (nat (int (length xs) + k)) xs)"

text \<open>
  \<^verbatim>\<open>search\<close> (lines 164-229). The order in which \<^verbatim>\<open>for doc_id in candidate_docs\<close> visits
  the members of the set is the interpreter's: it is the parameter \<open>set_iter\<close>, which
  maps the members of a set to the sequence the loop sees. \<^verbatim>\<open>results.sort(key=...,
  reverse=True)\<close> is stable, as is \<open>sort_key\<close> on the negated key. The result is the
  engine after the call and what the call returns or raises.
\<close>

definition search ::
    "collab \<Rightarrow> (int list \<Rightarrow> int list) \<Rightarrow> engine \<Rightarrow> string \<Rightarrow> int \<Rightarrow> engine \<times> (py_error + scored list)" where
  "search C set_iter e query top_k =
     (let parsed_terms = parse_query C e query in
      if parsed_terms = [] then (e, Inr [])
      else (case get_documents_with_all_terms e parsed_terms of
              (e1, candidate_docs) \<Rightarrow>
                if candidate_docs = [] then (e1, Inr [])
                else (case build_query_vector e1 parsed_terms of
                        Inl er \<Rightarrow> (e1, Inl er)
                      | Inr query_vector \<Rightarrow>
                          let query_length = sqrt (\<Sum>w\<leftarrow>map snd query_vector. w * w) in
                          if query_length = 0 then (e1, Inr [])
                          else (case score_docs e1 query_vector query_length (set_iter candidate_docs) of
                                  Inl er \<Rightarrow> (e1, Inl er)
                                | Inr results \<Rightarrow>
                                    (e1, Inr (slice_to (sort_key (\<lambda>r. - similarity r) results) top_k))))))"

subsection \<open>Auxiliary notions for the statements\<close>

text \<open>
  The postings that belong to one document (at most one per term), and the weight of a
  posting as \<^verbatim>\<open>save_index\<close> reads it, \<^verbatim>\<open>posting.get('tf_idf', 0)\<close>.
\<close>

definition doc_postings_of :: "bpostings \<Rightarrow> int \<Rightarrow> bposting list" where
  "doc_postings_of ps d = List.map_filter (\<lambda>(t, dp). map_of dp d) ps"

definition tf_idf_of :: "bposting \<Rightarrow> real" where
  "tf_idf_of p = (case b_tf_idf p of None \<Rightarrow> 0 | Some w \<Rightarrow> w)"

text \<open>
  The invariant of the builder between two documents: every term of the postings store
  has a posting, under pairwise different document identifiers that have been handed out.
\<close>

definition postings_ok :: "indexer \<Rightarrow> bool" where
  "postings_ok s \<longleftrightarrow>
     1 \<le> next_doc_id s \<and>
     (\<forall>(t, dp) \<in> set (postings s).
        dp \<noteq> [] \<and> distinct (map fst dp) \<and> (\<forall>d \<in> fst ` set dp. 1 \<le> d \<and> d < next_doc_id s))"

text \<open>What the first pass of \<^verbatim>\<open>calculate_tf_idf\<close> makes of the postings of one term.\<close>

definition weighted :: "int \<Rightarrow> (int \<times> bposting) list \<Rightarrow> (int \<times> bposting) list" where
  "weighted N dp =
     map (\<lambda>(d, p). (d, p\<lparr>b_tf_idf := Some (real_of_int (b_tf p) * ln (real_of_int N / real (length dp))),
                          b_idf := Some (ln (real_of_int N / real (length dp))),
                          b_df := Some (int (length dp))\<rparr>)) dp"

subsection \<open>Collaborators for the examples\<close>

text \<open>
  A tokenizer that cuts at blanks, the stop word \<^verbatim>\<open>on\<close>, no other filter and the
  identity as stemmer.
\<close>

fun words_from :: "string \<Rightarrow> string \<Rightarrow> string list" where
  "words_from w [] = (if w = [] then [] else [w])"
| "words_from w (c # cs) =
     (if c = CHR '' '' then (if w = [] then words_from [] cs else w # words_from [] cs)
      else words_from (w @ [c]) cs)"

definition ex_collab :: collab where
  "ex_collab = \<lparr>splitchars = words_from [], normalize_token = (\<lambda>t. t),
     is_stop_word = (\<lambda>t. t = ''on''), starts_with_punctuation = (\<lambda>t. False),
     is_short = (\<lambda>t. False), is_number = (\<lambda>t. False), stem = (\<lambda>t. t)\<rparr>"

subsection \<open>Auxiliary notions for the query engine\<close>

text \<open>
  A document holds a posting for a term; the candidate set as a set; the posting of a
  term in a document; and the dot product of a query vector with the weights of a
  document, restricted to the terms of the query vector.
\<close>

definition holds_posting :: "se_postings \<Rightarrow> int \<Rightarrow> int \<Rightarrow> bool" where
  "holds_posting ps tid d =
     (case map_of ps tid of None \<Rightarrow> False | Some doc_postings \<Rightarrow> d \<in> set (map fst doc_postings))"

definition candidate_set :: "engine \<Rightarrow> parsed_term list \<Rightarrow> int set" where
  "candidate_set e parsed_terms = set (snd (get_documents_with_all_terms e parsed_terms))"

definition lookup_posting :: "se_postings \<Rightarrow> int \<Rightarrow> int \<Rightarrow> posting option" where
  "lookup_posting ps tid d = (case map_of ps tid of None \<Rightarrow> None | Some dp \<Rightarrow> map_of dp d)"

definition restricted_dot :: "engine \<Rightarrow> (int \<times> real) list \<Rightarrow> int \<Rightarrow> real" where
  "restricted_dot e qv d =
     (\<Sum>(tid, q_weight)\<leftarrow>qv.
         case lookup_posting (se_postings e) tid d of
           None \<Rightarrow> 0
         | Some p \<Rightarrow> q_weight * p_tf_idf p)"

subsection \<open>Engine states for the examples\<close>

text \<open>
  Three documents \<^verbatim>\<open>cat sat\<close>, \<^verbatim>\<open>sat\<close> and \<^verbatim>\<open>dog\<close>, with the weights and lengths as
  they are written with 6 fractional digits.
\<close>

definition ex_engine :: engine where
  "ex_engine =
     \<lparr>se_documents = [(''A'', 1), (''B'', 2), (''C'', 3)],
      se_documents_inv = [(1, ''A''), (2, ''B''), (3, ''C'')],
      se_terms = [(''cat'', 1), (''sat'', 2), (''dog'', 3)],
      se_terms_inv = [(1, ''cat''), (2, ''sat''), (3, ''dog'')],
      se_postings =
        [(1, [(1, \<lparr>p_tf_idf = 1.098612, p_tf = 1, p_idf = 1.098612, p_df = 1\<rparr>)]),
         (2, [(1, \<lparr>p_tf_idf = 0.405465, p_tf = 1, p_idf = 0.405465, p_df = 2\<rparr>),
              (2, \<lparr>p_tf_idf = 0.405465, p_tf = 1, p_idf = 0.405465, p_df = 2\<rparr>)]),
         (3, [(3, \<lparr>p_tf_idf = 1.098612, p_tf = 1, p_idf = 1.098612, p_df = 1\<rparr>)])],
      se_doc_lengths = [(1, 1.171047), (2, 0.405465), (3, 1.098612)],
      se_total_docs = 3, se_total_terms = 3\<rparr>"

text \<open>
  A term table that lists a term for which the postings table has no record, as after a
  save that was cut short, or a hand-edited index.
\<close>

definition orphan_engine :: engine where
  "orphan_engine =
     \<lparr>se_documents = [(''A'', 1)], se_documents_inv = [(1, ''A'')],
      se_terms = [(''cat'', 1)], se_terms_inv = [(1, ''cat'')],
      se_postings = [], se_doc_lengths = [(1, 0)],
      se_total_docs = 1, se_total_terms = 1\<rparr>"

text \<open>
  Eight documents, the first and the last of them \<^verbatim>\<open>sat\<close>, the others \<^verbatim>\<open>cat\<close>.
  \<open>slot_order\<close> is the order in which CPython visits a set of a few small integers with
  different residues modulo 8 (the slot of \<open>d\<close> in the hash table of 8 slots is
  \<open>d mod 8\<close>): the set \<open>{1, 8}\<close> is visited as 8, 1.
\<close>

definition slot_order :: "int list \<Rightarrow> int list" where
  "slot_order ds = sort_key (\<lambda>d. d mod 8) ds"




subsection \<open>The scoring of the specification\<close>

text \<open>
  The candidate list of a query, the norm of a query vector (line 188), and the cosine
  similarity as the specification words it: the dot product of the query vector with the
  weights of the document on the query terms, over the product of the query vector norm
  and the document vector norm.
\<close>

definition candidates :: "collab \<Rightarrow> engine \<Rightarrow> string \<Rightarrow> int list" where
  "candidates C e query = snd (get_documents_with_all_terms e (parse_query C e query))"

definition query_norm :: "(int \<times> real) list \<Rightarrow> real" where
  "query_norm qv = sqrt (\<Sum>w\<leftarrow>map snd qv. w * w)"

definition cosine_similarity :: "engine \<Rightarrow> (int \<times> real) list \<Rightarrow> int \<Rightarrow> real" where
  "cosine_similarity e qv d = restricted_dot e qv d / (query_norm qv * doc_length_of e d)"

section \<open>Properties\<close>

subsection \<open>Facts about the builder\<close>

lemma set_update_subset: "set (AList.update k v al) \<subseteq> insert (k, v) (set al)"
  by (induction al) auto

lemma length_update:
  "length (AList.update k v al) = (if k \<in> fst ` set al then length al else Suc (length al))"
  by (induction al) auto

lemma map_err_Inr:
  assumes "\<And>x. x \<in> set xs \<Longrightarrow> f x = Inr (g x)"
  shows "map_err f xs = Inr (map g xs)"
  using assms by (induction xs) auto

lemma add_posting_frame [simp]:
  "documents (add_posting d s tf) = documents s"
  "next_doc_id (add_posting d s tf) = next_doc_id s"
  "doc_lengths (add_posting d s tf) = doc_lengths s"
  by (auto simp: add_posting_def Let_def split: prod.splits option.splits)

lemma foldl_add_posting_frame [simp]:
  "documents (foldl (add_posting d) s tfs) = documents s"
  "next_doc_id (foldl (add_posting d) s tfs) = next_doc_id s"
  "doc_lengths (foldl (add_posting d) s tfs) = doc_lengths s"
  by (induction tfs arbitrary: s) auto

lemma add_posting_ok:
  assumes "postings_ok s" "1 \<le> d" "d < next_doc_id s"
  shows "postings_ok (add_posting d s tf)"
proof -
  obtain tm freq where tf: "tf = (tm, freq)" by (cases tf)
  define tid where "tid = (case map_of (terms s) tm of None \<Rightarrow> next_term_id s | Some i \<Rightarrow> i)"
  define dp where "dp = (case map_of (postings s) tid of None \<Rightarrow> [] | Some dp \<Rightarrow> dp)"
  define p where "p = \<lparr>b_tf = freq, b_tf_idf = None, b_idf = None, b_df = None\<rparr>"
  have post: "postings (add_posting d s tf) = AList.update tid (AList.update d p dp) (postings s)"
    by (auto simp: add_posting_def tf tid_def dp_def p_def Let_def split: option.splits)
  have dp_ok: "distinct (map fst dp) \<and> (\<forall>x \<in> fst ` set dp. 1 \<le> x \<and> x < next_doc_id s)"
  proof (cases "map_of (postings s) tid")
    case None
    then show ?thesis by (simp add: dp_def)
  next
    case (Some a)
    then have "(tid, a) \<in> set (postings s)" by (rule map_of_SomeD)
    with assms(1) Some show ?thesis by (auto simp: postings_ok_def dp_def)
  qed
  have new_ok: "AList.update d p dp \<noteq> [] \<and> distinct (map fst (AList.update d p dp)) \<and>
      (\<forall>x \<in> fst ` set (AList.update d p dp). 1 \<le> x \<and> x < next_doc_id s)"
    using dp_ok assms(2,3) by (auto simp: distinct_update dom_update)
  have "\<forall>(t, q) \<in> set (postings (add_posting d s tf)).
          q \<noteq> [] \<and> distinct (map fst q) \<and> (\<forall>x \<in> fst ` set q. 1 \<le> x \<and> x < next_doc_id s)"
  proof (clarify)
    fix t q assume "(t, q) \<in> set (postings (add_posting d s tf))"
    then have "(t, q) = (tid, AList.update d p dp) \<or> (t, q) \<in> set (postings s)"
      using set_update_subset[of tid "AList.update d p dp" "postings s"] by (auto simp: post)
    then show "q \<noteq> [] \<and> distinct (map fst q) \<and> (\<forall>x \<in> fst ` set q. 1 \<le> x \<and> x < next_doc_id s)"
      using new_ok assms(1) by (auto simp: postings_ok_def)
  qed
  then show ?thesis using assms(1) by (simp add: postings_ok_def)
qed

lemma foldl_add_posting_ok:
  "postings_ok s \<Longrightarrow> 1 \<le> d \<Longrightarrow> d < next_doc_id s \<Longrightarrow> postings_ok (foldl (add_posting d) s tfs)"
  by (induction tfs arbitrary: s) (auto simp: add_posting_ok)

lemma postings_ok_bump:
  "postings_ok s \<Longrightarrow> postings_ok (s\<lparr>documents := ds, next_doc_id := next_doc_id s + 1\<rparr>)"
  by (fastforce simp: postings_ok_def)

lemma process_document_content_ok:
  assumes "postings_ok s"
  shows "postings_ok (snd (process_document_content C s content path))"
  using assms
  by (auto simp: process_document_content_def Let_def postings_ok_def[of s]
           intro!: foldl_add_posting_ok postings_ok_bump[unfolded postings_ok_def[of s]])

lemma process_document_content_facts:
  "fst (process_document_content C s content path) = next_doc_id s"
  "documents (snd (process_document_content C s content path)) =
     AList.update path (next_doc_id s) (documents s)"
  "next_doc_id (snd (process_document_content C s content path)) = next_doc_id s + 1"
  "doc_lengths (snd (process_document_content C s content path)) = doc_lengths s"
  by (simp_all add: process_document_content_def Let_def)

lemma process_all_Cons:
  "foldl (\<lambda>(s, processed_count) (path, content).
              case process_document_content C s content path of
                (d, s') \<Rightarrow> (s', if d \<noteq> 0 then processed_count + 1 else processed_count))
     (s, n) docs = (s', n') \<Longrightarrow> postings_ok s \<Longrightarrow> distinct (map fst (documents s)) \<Longrightarrow>
   postings_ok s' \<and> n' = n + int (length docs) \<and>
   next_doc_id s' = next_doc_id s + int (length docs) \<and>
   doc_lengths s' = doc_lengths s \<and>
   distinct (map fst (documents s')) \<and>
   fst ` set (documents s') = fst ` set (documents s) \<union> fst ` set docs"
proof (induction docs arbitrary: s n)
  case Nil
  then show ?case by simp
next
  case (Cons a docs)
  obtain path content where a: "a = (path, content)" by (cases a)
  let ?r = "process_document_content C s content path"
  have d: "fst ?r \<noteq> 0" using Cons.prems(2)
    by (simp add: process_document_content_facts postings_ok_def)
  have ok: "postings_ok (snd ?r)" using Cons.prems(2) by (rule process_document_content_ok)
  have dist: "distinct (map fst (documents (snd ?r)))"
    using Cons.prems(3) by (simp add: process_document_content_facts distinct_update)
  have "foldl (\<lambda>(s, processed_count) (path, content).
              case process_document_content C s content path of
                (d, s') \<Rightarrow> (s', if d \<noteq> 0 then processed_count + 1 else processed_count))
     (snd ?r, n + 1) docs = (s', n')"
    using Cons.prems(1) d by (simp add: a split: prod.splits)
  from Cons.IH[OF this ok dist] show ?case
    by (auto simp: process_document_content_facts dom_update a)
qed

lemma process_all_facts:
  assumes "process_all C indexer_init docs = (s, n)"
  shows "postings_ok s" "n = int (length docs)" "next_doc_id s = 1 + int (length docs)"
    "doc_lengths s = []" "distinct (map fst (documents s))"
    "fst ` set (documents s) = fst ` set docs"
proof -
  have i: "postings_ok indexer_init" "distinct (map fst (documents indexer_init))"
    by (simp_all add: postings_ok_def indexer_init_def)
  from process_all_Cons[OF assms[unfolded process_all_def] i]
  show "postings_ok s" "n = int (length docs)" "next_doc_id s = 1 + int (length docs)"
    "doc_lengths s = []" "distinct (map fst (documents s))"
    "fst ` set (documents s) = fst ` set docs"
    by (simp_all add: indexer_init_def)
qed

lemma length_documents_card:
  assumes "process_all C indexer_init docs = (s, n)"
  shows "length (documents s) = card (fst ` set docs)"
proof -
  have "length (documents s) = length (map fst (documents s))" by simp
  also have "\<dots> = card (set (map fst (documents s)))"
    using distinct_card[OF process_all_facts(5)[OF assms]] by simp
  also have "\<dots> = card (fst ` set docs)"
    using process_all_facts(6)[OF assms] by simp
  finally show ?thesis .
qed

lemma weigh_term_ok:
  "dp \<noteq> [] \<Longrightarrow> 0 < N \<Longrightarrow> weigh_term N (t, dp) = Inr (t, weighted N dp)"
  by (simp add: weigh_term_def weighted_def py_log_def Let_def)

lemma calculate_tf_idf_ok:
  assumes "postings_ok s" "documents s \<noteq> []"
  shows "calculate_tf_idf s =
     Inr (s\<lparr>postings := map (\<lambda>(t, dp). (t, weighted (int (length (documents s))) dp)) (postings s)\<rparr>)"
proof -
  have "map_err (weigh_term (int (length (documents s)))) (postings s) =
        Inr (map (\<lambda>(t, dp). (t, weighted (int (length (documents s))) dp)) (postings s))"
  proof (rule map_err_Inr)
    fix x assume x: "x \<in> set (postings s)"
    obtain t dp where [simp]: "x = (t, dp)" by (cases x)
    have "dp \<noteq> []" using assms(1) x by (auto simp: postings_ok_def)
    then show "weigh_term (int (length (documents s))) x =
        Inr ((\<lambda>(t, dp). (t, weighted (int (length (documents s))) dp)) x)"
      using assms(2) by (simp add: weigh_term_ok)
  qed
  then show ?thesis by (simp add: calculate_tf_idf_def Let_def)
qed

lemma sum_squares_ok:
  assumes "\<forall>(t, dp) \<in> set ps. \<forall>(d', p) \<in> set dp. b_tf_idf p \<noteq> None"
  shows "sum_squares d acc ps = Inr (acc + (\<Sum>p\<leftarrow>doc_postings_of ps d. tf_idf_of p * tf_idf_of p))"
  using assms
proof (induction ps arbitrary: acc)
  case Nil
  then show ?case by (simp add: doc_postings_of_def List.map_filter_simps)
next
  case (Cons a ps)
  obtain t dp where a: "a = (t, dp)" by (cases a)
  have IH: "\<And>acc. sum_squares d acc ps =
      Inr (acc + (\<Sum>p\<leftarrow>doc_postings_of ps d. tf_idf_of p * tf_idf_of p))"
    using Cons by simp
  show ?case
  proof (cases "map_of dp d")
    case None
    then show ?thesis by (simp add: a IH doc_postings_of_def List.map_filter_simps)
  next
    case (Some p)
    then have "(d, p) \<in> set dp" by (rule map_of_SomeD)
    with Cons.prems obtain w where w: "b_tf_idf p = Some w" by (fastforce simp: a)
    show ?thesis using Some w
      by (simp add: a IH doc_postings_of_def List.map_filter_simps tf_idf_of_def)
  qed
qed

lemma document_lengths_loop_ok:
  assumes "\<And>d. sum_squares d 0 ps = Inr (ss d)"
  shows "\<exists>lens'. document_lengths_loop ps lens docs = Inr lens' \<and>
           (\<forall>d. map_of lens' d = (if d \<in> snd ` set docs then Some (sqrt (ss d)) else map_of lens d))"
proof (induction docs arbitrary: lens)
  case Nil
  then show ?case by simp
next
  case (Cons a docs)
  obtain path d0 where a: "a = (path, d0)" by (cases a)
  from Cons[of "AList.update d0 (sqrt (ss d0)) lens"]
  obtain lens' where l: "document_lengths_loop ps (AList.update d0 (sqrt (ss d0)) lens) docs = Inr lens'"
    "\<forall>d. map_of lens' d = (if d \<in> snd ` set docs then Some (sqrt (ss d))
                            else map_of (AList.update d0 (sqrt (ss d0)) lens) d)"
    by blast
  show ?case using l by (auto simp: a assms update_conv')
qed

lemma length_le_of_range:
  fixes xs :: "int list"
  assumes "distinct xs" "\<forall>x \<in> set xs. 1 \<le> x \<and> x < 1 + int n"
  shows "length xs \<le> n"
proof -
  have "set xs \<subseteq> {1..int n}" using assms(2) by auto
  then have "card (set xs) \<le> card {1..int n}" by (intro card_mono) auto
  then show ?thesis using distinct_card[OF assms(1)] by simp
qed

lemma weighted_facts:
  "length (weighted N dp) = length dp"
  "map fst (weighted N dp) = map fst dp"
  "(d, p) \<in> set (weighted N dp) \<Longrightarrow>
     b_idf p = Some (ln (real_of_int N / real (length dp))) \<and>
     b_df p = Some (int (length dp)) \<and>
     b_tf_idf p = Some (real_of_int (b_tf p) * ln (real_of_int N / real (length dp)))"
  by (auto simp: weighted_def)

lemma build_index_ok:
  assumes "docs \<noteq> []"
  shows "\<exists>s0 lens. process_all C indexer_init docs = (s0, int (length docs)) \<and>
     build_index C docs =
       Inr (s0\<lparr>postings := map (\<lambda>(t, dp). (t, weighted (int (length (documents s0))) dp)) (postings s0),
               doc_lengths := lens,
               total_docs := int (length (documents s0)),
               total_terms := int (length (terms s0))\<rparr>, True) \<and>
     (\<forall>d. map_of lens d =
        (if d \<in> snd ` set (documents s0)
         then Some (sqrt (\<Sum>p\<leftarrow>doc_postings_of
                 (map (\<lambda>(t, dp). (t, weighted (int (length (documents s0))) dp)) (postings s0)) d.
                 tf_idf_of p * tf_idf_of p))
         else None))"
proof -
  obtain s0 n where p: "process_all C indexer_init docs = (s0, n)" by (cases "process_all C indexer_init docs")
  note f = process_all_facts[OF p]
  let ?N = "int (length (documents s0))"
  let ?ps = "map (\<lambda>(t, dp). (t, weighted ?N dp)) (postings s0)"
  have n: "n = int (length docs)" "n \<noteq> 0" using f(2) assms by auto
  have "fst ` set (documents s0) \<noteq> {}" using f(6) assms by auto
  then have ne: "documents s0 \<noteq> []" by auto
  have tfidf: "calculate_tf_idf s0 = Inr (s0\<lparr>postings := ?ps\<rparr>)"
    using calculate_tf_idf_ok[OF f(1) ne] .
  have w: "\<forall>(t, dp) \<in> set ?ps. \<forall>(d', p) \<in> set dp. b_tf_idf p \<noteq> None"
    by (auto simp: weighted_def)
  have ss: "\<And>d. sum_squares d 0 ?ps =
      Inr (\<Sum>p\<leftarrow>doc_postings_of ?ps d. tf_idf_of p * tf_idf_of p)"
    using sum_squares_ok[OF w, of _ 0] by simp
  from document_lengths_loop_ok[of ?ps, OF ss, of "[]" "documents s0"]
  obtain lens where l: "document_lengths_loop ?ps [] (documents s0) = Inr lens"
    "\<forall>d. map_of lens d = (if d \<in> snd ` set (documents s0)
        then Some (sqrt (\<Sum>p\<leftarrow>doc_postings_of ?ps d. tf_idf_of p * tf_idf_of p)) else None)"
    by auto
  have "build_index C docs = Inr (s0\<lparr>postings := ?ps, doc_lengths := lens,
               total_docs := ?N, total_terms := int (length (terms s0))\<rparr>, True)"
    using n l(1) by (simp add: build_index_def p finalize_def tfidf calculate_document_lengths_def f(4))
  with l(2) p n(1) show ?thesis by blast
qed

lemmas build_defs = ex_collab_def build_index_def process_all_def process_document_content_def
  count_terms_def filter_and_stem_def incr_def add_posting_def indexer_init_def finalize_def
  calculate_tf_idf_def weigh_term_def py_log_def calculate_document_lengths_def

lemma sum_squares_zero_iff:
  fixes ws :: "real list"
  shows "sqrt (\<Sum>w\<leftarrow>ws. w * w) = 0 \<longleftrightarrow> (\<forall>w \<in> set ws. w = 0)"
proof -
  have "(\<Sum>w\<leftarrow>ws. w * w) = 0 \<longleftrightarrow> (\<forall>x \<in> set (map (\<lambda>w. w * w) ws). x = 0)"
    by (rule sum_list_nonneg_eq_0_iff) auto
  then have "(\<Sum>w\<leftarrow>ws. w * w) = 0 \<longleftrightarrow> (\<forall>w \<in> set ws. w = 0)"
    by simp
  then show ?thesis by simp
qed

lemma doc_postings_of_mem:
  "p \<in> set (doc_postings_of ps d) \<longleftrightarrow> (\<exists>(t, dp) \<in> set ps. map_of dp d = Some p)"
  by (induction ps) (auto simp: doc_postings_of_def List.map_filter_simps split: option.splits)

subsection \<open>Claim C4: document vector norms\<close>

text \<open>
  Claim C4, as the code has it. After a build of at least one document, every document of
  the document table has a vector norm, the square root of the sum of the squares of the
  \<^verbatim>\<open>tf_idf\<close> weights of the postings that belong to it; every such posting carries a
  weight; the norm is not negative; and the norm is 0 if and only if every posting of the
  document has weight 0 (which includes the document without postings).
\<close>

theorem document_norms_after_finalize:
  assumes "docs \<noteq> []"
  shows "\<exists>s. build_index C docs = Inr (s, True) \<and>
     (\<forall>(path, d) \<in> set (documents s).
        (\<forall>p \<in> set (doc_postings_of (postings s) d). b_tf_idf p \<noteq> None) \<and>
        map_of (doc_lengths s) d =
          Some (sqrt (\<Sum>p\<leftarrow>doc_postings_of (postings s) d. tf_idf_of p * tf_idf_of p)) \<and>
        0 \<le> sqrt (\<Sum>p\<leftarrow>doc_postings_of (postings s) d. tf_idf_of p * tf_idf_of p) \<and>
        (sqrt (\<Sum>p\<leftarrow>doc_postings_of (postings s) d. tf_idf_of p * tf_idf_of p) = 0 \<longleftrightarrow>
           (\<forall>p \<in> set (doc_postings_of (postings s) d). tf_idf_of p = 0)))"
proof -
  from build_index_ok[OF assms, of C] obtain s0 lens where
    b: "build_index C docs =
       Inr (s0\<lparr>postings := map (\<lambda>(t, dp). (t, weighted (int (length (documents s0))) dp)) (postings s0),
               doc_lengths := lens,
               total_docs := int (length (documents s0)),
               total_terms := int (length (terms s0))\<rparr>, True)"
    and l: "\<forall>d. map_of lens d =
        (if d \<in> snd ` set (documents s0)
         then Some (sqrt (\<Sum>p\<leftarrow>doc_postings_of
                 (map (\<lambda>(t, dp). (t, weighted (int (length (documents s0))) dp)) (postings s0)) d.
                 tf_idf_of p * tf_idf_of p))
         else None)"
    by blast
  let ?ps = "map (\<lambda>(t, dp). (t, weighted (int (length (documents s0))) dp)) (postings s0)"
  have some: "\<And>d p. p \<in> set (doc_postings_of ?ps d) \<Longrightarrow> b_tf_idf p \<noteq> None"
    by (auto simp: doc_postings_of_mem dest!: map_of_SomeD weighted_facts(3))
  have nn: "\<And>d. 0 \<le> sqrt (\<Sum>p\<leftarrow>doc_postings_of ?ps d. tf_idf_of p * tf_idf_of p)"
    by (auto intro!: sum_list_nonneg)
  have z: "\<And>d. sqrt (\<Sum>p\<leftarrow>doc_postings_of ?ps d. tf_idf_of p * tf_idf_of p) = 0 \<longleftrightarrow>
      (\<forall>p \<in> set (doc_postings_of ?ps d). tf_idf_of p = 0)"
    using sum_squares_zero_iff[of "map tf_idf_of (doc_postings_of ?ps d)" for d]
    by (simp add: comp_def)
  let ?s = "s0\<lparr>postings := ?ps, doc_lengths := lens,
               total_docs := int (length (documents s0)),
               total_terms := int (length (terms s0))\<rparr>"
  have "\<forall>(path, d) \<in> set (documents ?s).
        (\<forall>p \<in> set (doc_postings_of (postings ?s) d). b_tf_idf p \<noteq> None) \<and>
        map_of (doc_lengths ?s) d =
          Some (sqrt (\<Sum>p\<leftarrow>doc_postings_of (postings ?s) d. tf_idf_of p * tf_idf_of p)) \<and>
        0 \<le> sqrt (\<Sum>p\<leftarrow>doc_postings_of (postings ?s) d. tf_idf_of p * tf_idf_of p) \<and>
        (sqrt (\<Sum>p\<leftarrow>doc_postings_of (postings ?s) d. tf_idf_of p * tf_idf_of p) = 0 \<longleftrightarrow>
           (\<forall>p \<in> set (doc_postings_of (postings ?s) d). tf_idf_of p = 0))"
  proof (clarify)
    fix path d assume "(path, d) \<in> set (documents ?s)"
    then have "d \<in> snd ` set (documents s0)" by force
    then have m: "map_of lens d =
        Some (sqrt (\<Sum>p\<leftarrow>doc_postings_of ?ps d. tf_idf_of p * tf_idf_of p))"
      using l by simp
    have p: "postings ?s = ?ps" "doc_lengths ?s = lens" by simp_all
    show "(\<forall>p \<in> set (doc_postings_of (postings ?s) d). b_tf_idf p \<noteq> None) \<and>
        map_of (doc_lengths ?s) d =
          Some (sqrt (\<Sum>p\<leftarrow>doc_postings_of (postings ?s) d. tf_idf_of p * tf_idf_of p)) \<and>
        0 \<le> sqrt (\<Sum>p\<leftarrow>doc_postings_of (postings ?s) d. tf_idf_of p * tf_idf_of p) \<and>
        (sqrt (\<Sum>p\<leftarrow>doc_postings_of (postings ?s) d. tf_idf_of p * tf_idf_of p) = 0 \<longleftrightarrow>
           (\<forall>p \<in> set (doc_postings_of (postings ?s) d). tf_idf_of p = 0))"
      unfolding p using some[of _ d] m nn[of d] z[of d] by blast
  qed
  with b show ?thesis by blast
qed

text \<open>Two documents, \<^verbatim>\<open>cat sat\<close> and \<^verbatim>\<open>cat\<close>: the norm of the first is \<open>ln 2\<close>.\<close>

theorem document_norms_witness:
  "\<exists>s. build_index ex_collab [(''A'', ''cat sat''), (''B'', ''cat'')] = Inr (s, True) \<and>
       map_of (doc_lengths s) 1 =
          Some (sqrt (\<Sum>p\<leftarrow>doc_postings_of (postings s) 1. tf_idf_of p * tf_idf_of p)) \<and>
       map_of (doc_lengths s) 1 = Some (ln 2)"
  using document_norms_after_finalize[of "[(''A'', ''cat sat''), (''B'', ''cat'')]" ex_collab]
  by (simp add: build_defs)

text \<open>
  The claim as stated, norm 0 only for a document without surviving postings, fails on
  the corpus of the single document \<^verbatim>\<open>cat cat cat\<close>: the document holds a posting for
  \<^verbatim>\<open>cat\<close> with frequency 3, the term occurs in every document, so its \<^verbatim>\<open>idf\<close> is
  \<open>ln (1 / 1) = 0\<close>, and the norm of the document is 0.
\<close>

theorem norm_zero_with_postings:
  "build_index ex_collab [(''A'', ''cat cat cat'')] =
     Inr (\<lparr>documents = [(''A'', 1)], terms = [(''cat'', 1)],
           postings = [(1, [(1, \<lparr>b_tf = 3, b_tf_idf = Some 0, b_idf = Some 0, b_df = Some 1\<rparr>)])],
           doc_lengths = [(1, 0)], next_doc_id = 2, next_term_id = 2,
           total_docs = 1, total_terms = 1\<rparr>, True)"
  by (simp add: build_defs)

subsection \<open>Claim C5: inverse document frequency\<close>

text \<open>
  Claim C5, as the code has it. After a build of at least one document, every posting of
  every term of the postings store carries \<open>idf = ln (N / df)\<close>, with \<open>N\<close> the number of
  entries of the document table and \<open>df\<close> the number of documents that hold a posting for
  the term, and carries this \<open>df\<close>; \<open>idf = 0\<close> if and only if \<open>df = N\<close>; and \<open>0 \<le> idf\<close>
  when no identifier string was added twice.
\<close>

theorem idf_after_finalize:
  assumes "docs \<noteq> []"
  shows "\<exists>s. build_index C docs = Inr (s, True) \<and>
     (\<forall>(t, dp) \<in> set (postings s). \<forall>(d, p) \<in> set dp.
        b_idf p = Some (ln (real (length (documents s)) / real (length dp))) \<and>
        b_df p = Some (int (length dp)) \<and>
        (ln (real (length (documents s)) / real (length dp)) = 0 \<longleftrightarrow>
           length dp = length (documents s)) \<and>
        (distinct (map fst docs) \<longrightarrow> 0 \<le> ln (real (length (documents s)) / real (length dp))))"
proof -
  from build_index_ok[OF assms, of C] obtain s0 lens where
    p: "process_all C indexer_init docs = (s0, int (length docs))" and
    b: "build_index C docs =
       Inr (s0\<lparr>postings := map (\<lambda>(t, dp). (t, weighted (int (length (documents s0))) dp)) (postings s0),
               doc_lengths := lens,
               total_docs := int (length (documents s0)),
               total_terms := int (length (terms s0))\<rparr>, True)"
    by blast
  note f = process_all_facts[OF p]
  let ?N = "length (documents s0)"
  let ?ps = "map (\<lambda>(t, dp). (t, weighted (int ?N) dp)) (postings s0)"
  let ?s = "s0\<lparr>postings := ?ps, doc_lengths := lens,
               total_docs := int ?N, total_terms := int (length (terms s0))\<rparr>"
  have "fst ` set (documents s0) \<noteq> {}" using f(6) assms by auto
  then have Npos: "0 < ?N" by auto
  have "\<forall>(t, dp) \<in> set (postings ?s). \<forall>(d, p) \<in> set dp.
        b_idf p = Some (ln (real (length (documents ?s)) / real (length dp))) \<and>
        b_df p = Some (int (length dp)) \<and>
        (ln (real (length (documents ?s)) / real (length dp)) = 0 \<longleftrightarrow>
           length dp = length (documents ?s)) \<and>
        (distinct (map fst docs) \<longrightarrow> 0 \<le> ln (real (length (documents ?s)) / real (length dp)))"
  proof (clarify)
    fix t dp d q assume m: "(t, dp) \<in> set (postings ?s)" and dq: "(d, q) \<in> set dp"
    from m obtain dp0 where dp0: "(t, dp0) \<in> set (postings s0)" "dp = weighted (int ?N) dp0"
      by auto
    have len: "length dp = length dp0" by (simp add: dp0(2) weighted_facts)
    have ok: "dp0 \<noteq> []" "distinct (map fst dp0)"
      "\<forall>x \<in> set (map fst dp0). 1 \<le> x \<and> x < 1 + int (length docs)"
      using f(1) f(3) dp0(1) by (auto simp: postings_ok_def)
    have pos: "0 < length dp" using ok(1) len by simp
    have w: "b_idf q = Some (ln (real ?N / real (length dp)))" "b_df q = Some (int (length dp))"
      using weighted_facts(3)[of d q "int ?N" dp0] dq dp0(2) len by simp_all
    have quot: "0 < real ?N / real (length dp)" using Npos pos by simp
    have z: "ln (real ?N / real (length dp)) = 0 \<longleftrightarrow> length dp = ?N"
      using quot pos Npos by (simp add: ln_eq_zero_iff)
    have nn: "0 \<le> ln (real ?N / real (length dp))" if dist: "distinct (map fst docs)"
    proof -
      have "length dp0 \<le> length docs" using length_le_of_range[OF ok(2) ok(3)] by simp
      moreover have "?N = length docs"
        using length_documents_card[OF p] distinct_card[OF dist] by simp
      ultimately have "real (length dp) \<le> real ?N" using len by simp
      then have "1 \<le> real ?N / real (length dp)" using pos by (simp add: le_divide_eq)
      then show ?thesis using quot by simp
    qed
    show "b_idf q = Some (ln (real (length (documents ?s)) / real (length dp))) \<and>
        b_df q = Some (int (length dp)) \<and>
        (ln (real (length (documents ?s)) / real (length dp)) = 0 \<longleftrightarrow>
           length dp = length (documents ?s)) \<and>
        (distinct (map fst docs) \<longrightarrow> 0 \<le> ln (real (length (documents ?s)) / real (length dp)))"
      using w z nn by simp
  qed
  with b show ?thesis by blast
qed

text \<open>Two documents, \<^verbatim>\<open>cat sat\<close> and \<^verbatim>\<open>cat\<close>: the term \<^verbatim>\<open>sat\<close> has \<open>idf = ln 2\<close>.\<close>

theorem idf_after_finalize_witness:
  "\<exists>s. build_index ex_collab [(''A'', ''cat sat''), (''B'', ''cat'')] = Inr (s, True) \<and>
     (\<forall>(t, dp) \<in> set (postings s). \<forall>(d, p) \<in> set dp.
        b_idf p = Some (ln (real (length (documents s)) / real (length dp))) \<and>
        0 \<le> ln (real (length (documents s)) / real (length dp))) \<and>
     map_of (postings s) 2 = Some [(1, \<lparr>b_tf = 1, b_tf_idf = Some (ln 2), b_idf = Some (ln 2), b_df = Some 1\<rparr>)]"
  using idf_after_finalize[of "[(''A'', ''cat sat''), (''B'', ''cat'')]" ex_collab]
  by (simp add: build_defs)

text \<open>
  The claim as stated, \<open>0 \<le> idf\<close> always, fails when an identifier string is added
  twice: \<^verbatim>\<open>self.documents[doc_path] = doc_id\<close> overwrites the entry, so the document table
  has one entry (\<open>N = 1\<close>) while the term \<^verbatim>\<open>cat\<close> has postings under both document
  identifiers (\<open>df = 2\<close>), and \<open>idf = ln (1 / 2) < 0\<close>.
\<close>

theorem negative_idf_after_duplicate:
  "build_index ex_collab [(''A'', ''cat''), (''A'', ''cat'')] =
     Inr (\<lparr>documents = [(''A'', 2)], terms = [(''cat'', 1)],
           postings = [(1, [(1, \<lparr>b_tf = 1, b_tf_idf = Some (ln (1 / 2)), b_idf = Some (ln (1 / 2)), b_df = Some 2\<rparr>),
                            (2, \<lparr>b_tf = 1, b_tf_idf = Some (ln (1 / 2)), b_idf = Some (ln (1 / 2)), b_df = Some 2\<rparr>)])],
           doc_lengths = [(2, - ln (1 / 2))], next_doc_id = 3, next_term_id = 2,
           total_docs = 1, total_terms = 1\<rparr>, True) \<and>
   ln (1 / 2 :: real) < 0"
  by (simp add: build_defs)

subsection \<open>Claim C6: a document identifier string added twice\<close>

text \<open>
  Claim C6, as the code has it. Adding a document whose identifier string is already
  registered does not fail: the call returns the next document identifier, the entry of
  the string in the document table is overwritten with that new identifier (the table
  keeps its keys), and the counter advances.
\<close>

theorem duplicate_document_overwrites:
  assumes "map_of (documents s) path = Some old"
  shows "fst (process_document_content C s content path) = next_doc_id s \<and>
         map_of (documents (snd (process_document_content C s content path))) path = Some (next_doc_id s) \<and>
         map fst (documents (snd (process_document_content C s content path))) = map fst (documents s) \<and>
         next_doc_id (snd (process_document_content C s content path)) = next_doc_id s + 1"
proof -
  have "path \<in> fst ` set (documents s)" using assms by (metis map_of_SomeD image_eqI fst_conv)
  then show ?thesis
    by (simp add: process_document_content_facts update_conv' AList.update_keys)
qed


text \<open>The string \<^verbatim>\<open>A\<close>, registered under 1, is added again and gets 2.\<close>

theorem duplicate_document_overwrites_witness:
  "map_of (documents (snd (process_document_content ex_collab indexer_init ''cat'' ''A''))) ''A'' = Some 1 \<and>
   fst (process_document_content ex_collab
          (snd (process_document_content ex_collab indexer_init ''cat'' ''A'')) ''dog'' ''A'') = 2 \<and>
   map_of (documents (snd (process_document_content ex_collab
          (snd (process_document_content ex_collab indexer_init ''cat'' ''A'')) ''dog'' ''A''))) ''A'' = Some 2"
  using duplicate_document_overwrites[of "snd (process_document_content ex_collab indexer_init ''cat'' ''A'')"
     "''A''" 1 ex_collab "''dog''"]
  by (simp add: build_defs)

text \<open>
  The claim as stated, failure with \<^verbatim>\<open>DuplicateDocument\<close>, fails: the second call with the
  string \<^verbatim>\<open>A\<close> returns the identifier 2 and leaves \<^verbatim>\<open>A\<close> registered under 2, while the
  posting of the first document stays in the store under the identifier 1.
\<close>

theorem duplicate_document_accepted:
  "process_document_content ex_collab
     (snd (process_document_content ex_collab indexer_init ''cat'' ''A'')) ''dog'' ''A'' =
   (2, \<lparr>documents = [(''A'', 2)], terms = [(''cat'', 1), (''dog'', 2)],
         postings = [(1, [(1, \<lparr>b_tf = 1, b_tf_idf = None, b_idf = None, b_df = None\<rparr>)]),
                     (2, [(2, \<lparr>b_tf = 1, b_tf_idf = None, b_idf = None, b_df = None\<rparr>)])],
         doc_lengths = [], next_doc_id = 3, next_term_id = 3, total_docs = 0, total_terms = 0\<rparr>)"
  by (simp add: build_defs)

subsection \<open>Facts about the query engine\<close>

lemmas search_defs = search_def parse_query_def get_documents_with_all_terms_def dd_getitem_def
  build_query_vector_def query_weight_def incr_def py_log_def doc_vector_def dot_product_def
  doc_length_of_def cosine_def slice_to_def filter_and_stem_def ex_collab_def
  List.map_filter_simps slot_order_def

lemmas cand_defs = candidate_set_def holds_posting_def parse_query_def get_documents_with_all_terms_def
  dd_getitem_def filter_and_stem_def ex_collab_def ex_engine_def

lemma intersect_terms_mem:
  "d \<in> set (intersect_terms ps cand ts) \<longleftrightarrow>
     d \<in> set cand \<and> (\<forall>t \<in> set ts. holds_posting ps (term_id t) d)"
  by (induction ts arbitrary: cand) (auto simp: holds_posting_def split: option.splits)

lemma candidate_set_Cons:
  "d \<in> candidate_set e (t # ts) \<longleftrightarrow>
     (\<forall>u \<in> set (t # ts). holds_posting (se_postings e) (term_id u) d)"
proof (cases "map_of (se_postings e) (term_id t)")
  case None
  then show ?thesis
    by (simp add: candidate_set_def get_documents_with_all_terms_def dd_getitem_def
        intersect_terms_mem holds_posting_def)
next
  case (Some dp)
  then show ?thesis
    by (auto simp: candidate_set_def get_documents_with_all_terms_def dd_getitem_def
        intersect_terms_mem holds_posting_def)
qed

lemma intersect_terms_Nil [simp]: "intersect_terms ps [] ts = []"
  by (induction ts) (auto split: option.splits)

lemma candidates_nonempty_frame:
  assumes "get_documents_with_all_terms e ts = (e', cands)" "cands \<noteq> []"
  shows "e' = e"
proof (cases ts)
  case Nil
  then show ?thesis using assms by (simp add: get_documents_with_all_terms_def)
next
  case (Cons t rest)
  show ?thesis
  proof (cases "map_of (se_postings e) (term_id t)")
    case None
    then show ?thesis using assms Cons
      by (simp add: get_documents_with_all_terms_def dd_getitem_def)
  next
    case (Some dp)
    then show ?thesis using assms Cons
      by (auto simp: get_documents_with_all_terms_def dd_getitem_def)
  qed
qed

lemma score_docs_facts:
  "score_docs e qv ql ds = Inr rs \<Longrightarrow>
     subseq (map doc_id rs) ds \<and>
     (\<forall>r \<in> set rs. 0 < similarity r \<and> similarity r = cosine e qv ql (doc_id r) \<and>
        map_of (se_documents_inv e) (doc_id r) = Some (doc_path r)) \<and>
     (\<forall>d \<in> set ds. 0 < cosine e qv ql d \<longrightarrow> d \<in> doc_id ` set rs)"
proof (induction ds arbitrary: rs)
  case Nil
  then show ?case by simp
next
  case (Cons d ds)
  show ?case
  proof (cases "0 < cosine e qv ql d")
    case False
    then have "score_docs e qv ql ds = Inr rs" using Cons.prems by (simp add: Let_def)
    from Cons.IH[OF this] False show ?thesis by auto
  next
    case True
    then obtain path rs' where
      p: "map_of (se_documents_inv e) d = Some path" and
      r: "score_docs e qv ql ds = Inr rs'" and
      rs: "rs = \<lparr>doc_id = d, similarity = cosine e qv ql d, doc_path = path\<rparr> # rs'"
      using Cons.prems by (auto simp: Let_def split: option.splits sum.splits)
    from Cons.IH[OF r] True p show ?thesis by (auto simp: rs)
  qed
qed

lemma search_unfold:
  "search C set_iter e query top_k =
     (if parse_query C e query = [] then (e, Inr [])
      else if snd (get_documents_with_all_terms e (parse_query C e query)) = []
      then (fst (get_documents_with_all_terms e (parse_query C e query)), Inr [])
      else (case build_query_vector (fst (get_documents_with_all_terms e (parse_query C e query)))
                  (parse_query C e query) of
              Inl er \<Rightarrow> (fst (get_documents_with_all_terms e (parse_query C e query)), Inl er)
            | Inr qv \<Rightarrow>
                if sqrt (\<Sum>w\<leftarrow>map snd qv. w * w) = 0
                then (fst (get_documents_with_all_terms e (parse_query C e query)), Inr [])
                else (case score_docs (fst (get_documents_with_all_terms e (parse_query C e query))) qv
                             (sqrt (\<Sum>w\<leftarrow>map snd qv. w * w))
                             (set_iter (snd (get_documents_with_all_terms e (parse_query C e query)))) of
                        Inl er \<Rightarrow> (fst (get_documents_with_all_terms e (parse_query C e query)), Inl er)
                      | Inr scored \<Rightarrow>
                          (fst (get_documents_with_all_terms e (parse_query C e query)),
                           Inr (slice_to (sort_key (\<lambda>r. - similarity r) scored) top_k)))))"
  unfolding search_def Let_def
  by (cases "get_documents_with_all_terms e (parse_query C e query)") (simp split: sum.splits)

lemma search_state:
  "fst (search C set_iter e query top_k) =
     fst (get_documents_with_all_terms e (parse_query C e query))"
proof (cases "parse_query C e query = []")
  case True
  then show ?thesis by (simp add: search_unfold get_documents_with_all_terms_def)
next
  case False
  then show ?thesis by (simp add: search_unfold split: sum.splits)
qed

lemma search_Inr:
  assumes "search C set_iter e query top_k = (e', Inr results)"
  shows "results = [] \<or>
     (\<exists>cands qv scored.
        get_documents_with_all_terms e (parse_query C e query) = (e', cands) \<and>
        parse_query C e query \<noteq> [] \<and> cands \<noteq> [] \<and>
        build_query_vector e' (parse_query C e query) = Inr qv \<and>
        sqrt (\<Sum>w\<leftarrow>map snd qv. w * w) \<noteq> 0 \<and>
        score_docs e' qv (sqrt (\<Sum>w\<leftarrow>map snd qv. w * w)) (set_iter cands) = Inr scored \<and>
        results = slice_to (sort_key (\<lambda>r. - similarity r) scored) top_k)"
proof (cases "results = []")
  case True
  then show ?thesis by simp
next
  case False
  obtain e1 cands where g: "get_documents_with_all_terms e (parse_query C e query) = (e1, cands)"
    by (cases "get_documents_with_all_terms e (parse_query C e query)")
  have e1: "e1 = e'" using search_state[of C set_iter e query top_k] assms g by simp
  have p: "parse_query C e query \<noteq> []" using assms False by (auto simp: search_unfold)
  have c: "cands \<noteq> []" using assms False p g by (auto simp: search_unfold)
  obtain qv where q: "build_query_vector e' (parse_query C e query) = Inr qv"
    using assms p c g e1 by (auto simp: search_unfold split: sum.splits)
  have z: "sqrt (\<Sum>w\<leftarrow>map snd qv. w * w) \<noteq> 0"
    using assms False p c g e1 q by (auto simp: search_unfold)
  obtain scored where sc:
    "score_docs e' qv (sqrt (\<Sum>w\<leftarrow>map snd qv. w * w)) (set_iter cands) = Inr scored"
    using assms p c g e1 q z by (auto simp: search_unfold split: sum.splits)
  have "results = slice_to (sort_key (\<lambda>r. - similarity r) scored) top_k"
    using assms p c g e1 q z sc by (auto simp: search_unfold)
  then show ?thesis using g e1 p c q z sc by blast
qed


lemma slice_to_take: "\<exists>n. slice_to xs k = take n xs"
  by (auto simp: slice_to_def)



lemma map_of_doc_vector:
  "map_of (doc_vector e qv d) t =
     (if t \<in> fst ` set qv then map_option p_tf_idf (lookup_posting (se_postings e) t d) else None)"
proof (induction qv)
  case Nil
  then show ?case by (simp add: doc_vector_def List.map_filter_simps)
next
  case (Cons a qv)
  obtain t' w where a: "a = (t', w)" by (cases a)
  have step: "doc_vector e (a # qv) d =
      (case lookup_posting (se_postings e) t' d of
         None \<Rightarrow> doc_vector e qv d
       | Some p \<Rightarrow> (t', p_tf_idf p) # doc_vector e qv d)"
    by (simp add: doc_vector_def List.map_filter_simps a lookup_posting_def split: option.splits)
  show ?case using Cons.IH
    by (cases "lookup_posting (se_postings e) t' d") (auto simp: step[unfolded a] a)
qed

lemma foldl_dot:
  "foldl (\<lambda>acc (tid, q_weight).
              case map_of dv tid of None \<Rightarrow> acc | Some w \<Rightarrow> acc + q_weight * w) a qv =
   a + (\<Sum>(tid, q_weight)\<leftarrow>qv. case map_of dv tid of None \<Rightarrow> 0 | Some w \<Rightarrow> q_weight * w)"
  by (induction qv arbitrary: a) (auto simp: add.assoc split: option.splits)

lemma dot_product_restricted:
  "dot_product qv (doc_vector e qv d) = restricted_dot e qv d"
proof -
  have "(\<Sum>(tid, q_weight)\<leftarrow>qv. case map_of (doc_vector e qv d) tid of None \<Rightarrow> 0 | Some w \<Rightarrow> q_weight * w) =
        (\<Sum>(tid, q_weight)\<leftarrow>qv. case lookup_posting (se_postings e) tid d of
           None \<Rightarrow> 0 | Some p \<Rightarrow> q_weight * p_tf_idf p)"
    by (rule arg_cong[where f = sum_list], rule map_cong)
       (force simp: map_of_doc_vector split: option.splits)+
  then show ?thesis by (simp add: dot_product_def foldl_dot restricted_dot_def)
qed

lemma search_result_score:
  assumes "search C set_iter e query top_k = (e', Inr results)" "r \<in> set results"
  shows "e' = e \<and>
     (\<exists>qv. build_query_vector e (parse_query C e query) = Inr qv \<and>
        0 < sqrt (\<Sum>w\<leftarrow>map snd qv. w * w) \<and>
        0 < doc_length_of e (doc_id r) \<and>
        similarity r = restricted_dot e qv (doc_id r) /
                         (sqrt (\<Sum>w\<leftarrow>map snd qv. w * w) * doc_length_of e (doc_id r)) \<and>
        0 < similarity r)"
proof -
  have "results \<noteq> []" using assms(2) by auto
  with search_Inr[OF assms(1)] obtain cands qv scored where
    g: "get_documents_with_all_terms e (parse_query C e query) = (e', cands)" and
    c: "cands \<noteq> []" and
    q: "build_query_vector e' (parse_query C e query) = Inr qv" and
    z: "sqrt (\<Sum>w\<leftarrow>map snd qv. w * w) \<noteq> 0" and
    sc: "score_docs e' qv (sqrt (\<Sum>w\<leftarrow>map snd qv. w * w)) (set_iter cands) = Inr scored" and
    rs: "results = slice_to (sort_key (\<lambda>r. - similarity r) scored) top_k"
    by blast
  have e: "e' = e" using candidates_nonempty_frame[OF g c] .
  let ?ql = "sqrt (\<Sum>w\<leftarrow>map snd qv. w * w)"
  have "0 \<le> ?ql" by (auto intro!: sum_list_nonneg)
  then have qlpos: "0 < ?ql" using z by linarith
  obtain n where "results = take n (sort_key (\<lambda>r. - similarity r) scored)"
    using slice_to_take[of "sort_key (\<lambda>r. - similarity r) scored" top_k] rs by auto
  then have "r \<in> set (sort_key (\<lambda>r. - similarity r) scored)" using assms(2) by (auto dest: in_set_takeD)
  then have rin: "r \<in> set scored" by simp
  from score_docs_facts[OF sc] rin have
    pos: "0 < similarity r" and cos: "similarity r = cosine e' qv ?ql (doc_id r)" by auto
  have dl: "0 < doc_length_of e (doc_id r)"
    using pos cos by (auto simp: cosine_def e Let_def split: if_splits)
  have sim: "similarity r = restricted_dot e qv (doc_id r) / (?ql * doc_length_of e (doc_id r))"
    using cos dl qlpos by (simp add: cosine_def e Let_def dot_product_restricted mult.commute)
  show ?thesis using e q qlpos dl sim pos by auto
qed

lemma parse_tokens_term_ids:
  "p \<in> set (parse_tokens C e tokens) \<Longrightarrow> term_id p \<in> snd ` set (se_terms e)"
proof (induction tokens)
  case Nil
  then show ?case by simp
next
  case (Cons tok tokens)
  show ?case
  proof (cases "filter_and_stem C tok")
    case None
    then show ?thesis using Cons by simp
  next
    case (Some stemmed)
    show ?thesis
    proof (cases "map_of (se_terms e) stemmed")
      case None
      then show ?thesis using Cons Some by simp
    next
      case (Some tid)
      then have "(stemmed, tid) \<in> set (se_terms e)" by (rule map_of_SomeD)
      then have tid: "tid \<in> snd ` set (se_terms e)" by force
      have "p = \<lparr>original = tok, processed = stemmed, term_id = tid\<rparr> \<or>
            p \<in> set (parse_tokens C e tokens)"
        using Cons.prems \<open>filter_and_stem C tok = Some stemmed\<close> Some by simp
      then show ?thesis
      proof
        assume "p = \<lparr>original = tok, processed = stemmed, term_id = tid\<rparr>"
        then have "term_id p = tid" by simp
        then show ?thesis using tid by simp
      next
        assume "p \<in> set (parse_tokens C e tokens)"
        then show ?thesis by (rule Cons.IH)
      qed
    qed
  qed
qed

lemma search_frame:
  assumes "\<forall>t \<in> snd ` set (se_terms e). map_of (se_postings e) t \<noteq> None"
  shows "fst (search C set_iter e query top_k) = e"
proof (cases "parse_query C e query")
  case Nil
  then show ?thesis by (simp add: search_state get_documents_with_all_terms_def)
next
  case (Cons p ps)
  then have "p \<in> set (parse_tokens C e (splitchars C query))" by (simp add: parse_query_def)
  then have "term_id p \<in> snd ` set (se_terms e)" by (rule parse_tokens_term_ids)
  then obtain dp where "map_of (se_postings e) (term_id p) = Some dp"
    using assms by blast
  then show ?thesis
    by (simp add: search_state Cons get_documents_with_all_terms_def dd_getitem_def)
qed

lemma ex_search:
  "search ex_collab (\<lambda>ds. ds) ex_engine ''sat'' 20 =
     (ex_engine, Inr [\<lparr>doc_id = 2, similarity = 1, doc_path = ''B''\<rparr>,
                      \<lparr>doc_id = 1, similarity = 405465 / 1171047, doc_path = ''A''\<rparr>])"
  by (simp add: search_defs ex_engine_def)

lemma ex_search_no_length:
  "search ex_collab (\<lambda>ds. ds) (ex_engine\<lparr>se_doc_lengths := [(1, 1.171047), (3, 1.098612)]\<rparr>) ''sat'' 20 =
     (ex_engine\<lparr>se_doc_lengths := [(1, 1.171047), (3, 1.098612)]\<rparr>,
      Inr [\<lparr>doc_id = 2, similarity = 0.405465, doc_path = ''B''\<rparr>,
           \<lparr>doc_id = 1, similarity = 405465 / 1171047, doc_path = ''A''\<rparr>])"
  by (simp add: search_defs ex_engine_def)

subsection \<open>What \<^verbatim>\<open>search\<close> returns\<close>

lemma score_docs_exact:
  "score_docs e qv ql ds = Inr rs \<Longrightarrow>
     map doc_id rs = filter (\<lambda>d. 0 < cosine e qv ql d) ds \<and>
     (\<forall>r \<in> set rs. similarity r = cosine e qv ql (doc_id r) \<and>
        map_of (se_documents_inv e) (doc_id r) = Some (doc_path r))"
proof (induction ds arbitrary: rs)
  case Nil
  then show ?case by simp
next
  case (Cons d ds)
  show ?case
  proof (cases "0 < cosine e qv ql d")
    case False
    then have "score_docs e qv ql ds = Inr rs" using Cons.prems by (simp add: Let_def)
    from Cons.IH[OF this] False show ?thesis by auto
  next
    case True
    then obtain path rs' where
      p: "map_of (se_documents_inv e) d = Some path" and
      r: "score_docs e qv ql ds = Inr rs'" and
      rs: "rs = \<lparr>doc_id = d, similarity = cosine e qv ql d, doc_path = path\<rparr> # rs'"
      using Cons.prems by (auto simp: Let_def split: option.splits sum.splits)
    from Cons.IH[OF r] True p show ?thesis by (auto simp: rs)
  qed
qed

lemma score_docs_returns:
  "\<forall>d \<in> set ds. map_of (se_documents_inv e) d \<noteq> None \<Longrightarrow> \<exists>rs. score_docs e qv ql ds = Inr rs"
proof (induction ds)
  case Nil
  then show ?case by simp
next
  case (Cons d ds)
  then obtain rs where rs: "score_docs e qv ql ds = Inr rs" by auto
  obtain path where p: "map_of (se_documents_inv e) d = Some path" using Cons.prems by auto
  show ?case by (simp add: Let_def rs p)
qed

lemma map_err_returns:
  "\<forall>x \<in> set xs. \<exists>y. f x = Inr y \<Longrightarrow> \<exists>ys. map_err f xs = Inr ys"
proof (induction xs)
  case Nil
  then show ?case by simp
next
  case (Cons x xs)
  then obtain y ys where "f x = Inr y" "map_err f xs = Inr ys" by auto
  then show ?case by simp
qed

lemma query_weight_returns:
  "0 < se_total_docs e \<Longrightarrow> \<exists>y. query_weight e entry = Inr y"
  by (cases entry) (auto simp: query_weight_def py_log_def Let_def split: option.splits)

lemma build_query_vector_returns:
  assumes "0 < se_total_docs e"
  shows "\<exists>qv. build_query_vector e ts = Inr qv"
proof -
  let ?tf = "foldl (\<lambda>tf term_info. incr tf (term_id term_info)) [] ts"
  have "\<exists>ws. map_err (query_weight e) ?tf = Inr ws"
    by (rule map_err_returns) (use query_weight_returns[OF assms] in blast)
  then show ?thesis by (auto simp: build_query_vector_def Let_def)
qed

lemma cosine_spec:
  "cosine e qv (query_norm qv) d =
     (if 0 < doc_length_of e d \<and> 0 < query_norm qv then cosine_similarity e qv d else 0)"
  by (simp add: cosine_def Let_def cosine_similarity_def dot_product_restricted mult.commute)

lemma cosine_positive_iff:
  "0 < cosine e qv (query_norm qv) d \<longleftrightarrow>
     0 < query_norm qv \<and> 0 < doc_length_of e d \<and> 0 < cosine_similarity e qv d"
  by (auto simp: cosine_spec)

lemma get_documents_frame:
  "se_total_docs (fst (get_documents_with_all_terms e ts)) = se_total_docs e"
  "se_documents_inv (fst (get_documents_with_all_terms e ts)) = se_documents_inv e"
  "se_doc_lengths (fst (get_documents_with_all_terms e ts)) = se_doc_lengths e"
  by (auto simp: get_documents_with_all_terms_def dd_getitem_def split: list.splits option.splits)

lemma search_unfold_norm:
  "search C set_iter e query top_k =
     (if parse_query C e query = [] then (e, Inr [])
      else if snd (get_documents_with_all_terms e (parse_query C e query)) = []
      then (fst (get_documents_with_all_terms e (parse_query C e query)), Inr [])
      else (case build_query_vector (fst (get_documents_with_all_terms e (parse_query C e query)))
                  (parse_query C e query) of
              Inl er \<Rightarrow> (fst (get_documents_with_all_terms e (parse_query C e query)), Inl er)
            | Inr qv \<Rightarrow>
                if query_norm qv = 0
                then (fst (get_documents_with_all_terms e (parse_query C e query)), Inr [])
                else (case score_docs (fst (get_documents_with_all_terms e (parse_query C e query))) qv
                             (query_norm qv)
                             (set_iter (snd (get_documents_with_all_terms e (parse_query C e query)))) of
                        Inl er \<Rightarrow> (fst (get_documents_with_all_terms e (parse_query C e query)), Inl er)
                      | Inr scored \<Rightarrow>
                          (fst (get_documents_with_all_terms e (parse_query C e query)),
                           Inr (slice_to (sort_key (\<lambda>r. - similarity r) scored) top_k)))))"
  unfolding query_norm_def by (rule search_unfold)

lemma slice_to_Nil [simp]: "slice_to [] k = []"
  by (simp add: slice_to_def)

lemma search_spec:
  assumes "search C set_iter e query top_k = (e', Inr results)"
  shows "(candidates C e query = [] \<longrightarrow> results = []) \<and>
     (candidates C e query \<noteq> [] \<longrightarrow> e' = e \<and>
        (\<exists>qv scored.
           build_query_vector e (parse_query C e query) = Inr qv \<and>
           map doc_id scored =
             filter (\<lambda>d. 0 < query_norm qv \<and> 0 < doc_length_of e d \<and> 0 < cosine_similarity e qv d)
                    (set_iter (candidates C e query)) \<and>
           (\<forall>r \<in> set scored. similarity r = cosine_similarity e qv (doc_id r) \<and>
              map_of (se_documents_inv e) (doc_id r) = Some (doc_path r)) \<and>
           results = slice_to (sort_key (\<lambda>r. - similarity r) scored) top_k))"
proof (cases "candidates C e query = []")
  case True
  then have "results = []"
    using assms by (auto simp: search_unfold_norm candidates_def split: if_splits)
  then show ?thesis using True by simp
next
  case False
  let ?ts = "parse_query C e query"
  obtain e1 cands where g: "get_documents_with_all_terms e ?ts = (e1, cands)"
    by (cases "get_documents_with_all_terms e ?ts")
  have c: "cands = candidates C e query" "cands \<noteq> []" using g False by (simp_all add: candidates_def)
  have e1: "e1 = e" using candidates_nonempty_frame[OF g c(2)] .
  have e': "e' = e" using search_state[of C set_iter e query top_k] assms g e1 by simp
  have p: "?ts \<noteq> []"
  proof
    assume "?ts = []"
    then have "cands = []" using g by (simp add: get_documents_with_all_terms_def)
    then show False using c(2) by simp
  qed
  obtain qv where q: "build_query_vector e ?ts = Inr qv"
    using assms p c(2) g e1 by (auto simp: search_unfold_norm split: sum.splits)
  have nn: "0 \<le> query_norm qv" unfolding query_norm_def by (auto intro!: sum_list_nonneg)
  show ?thesis
  proof (cases "query_norm qv = 0")
    case True
    then have "results = []" using assms p c(2) g e1 q by (auto simp: search_unfold_norm)
    moreover have "filter (\<lambda>d. 0 < query_norm qv \<and> 0 < doc_length_of e d \<and> 0 < cosine_similarity e qv d)
                    (set_iter (candidates C e query)) = []" using True by simp
    ultimately have "map doc_id [] =
             filter (\<lambda>d. 0 < query_norm qv \<and> 0 < doc_length_of e d \<and> 0 < cosine_similarity e qv d)
                    (set_iter (candidates C e query)) \<and>
           (\<forall>r \<in> set ([] :: scored list). similarity r = cosine_similarity e qv (doc_id r) \<and>
              map_of (se_documents_inv e) (doc_id r) = Some (doc_path r)) \<and>
           results = slice_to (sort_key (\<lambda>r. - similarity r) []) top_k" by simp
    then show ?thesis using False e' q by blast
  next
    case nz: False
    obtain scored where sc: "score_docs e qv (query_norm qv) (set_iter cands) = Inr scored"
      using assms p c(2) g e1 q nz by (auto simp: search_unfold_norm split: sum.splits)
    have r: "results = slice_to (sort_key (\<lambda>r. - similarity r) scored) top_k"
      using assms p c(2) g e1 q nz sc by (auto simp: search_unfold_norm)
    from score_docs_exact[OF sc] have
      m: "map doc_id scored = filter (\<lambda>d. 0 < cosine e qv (query_norm qv) d) (set_iter cands)" and
      s: "\<forall>r \<in> set scored. similarity r = cosine e qv (query_norm qv) (doc_id r) \<and>
            map_of (se_documents_inv e) (doc_id r) = Some (doc_path r)" by auto
    have m': "map doc_id scored =
             filter (\<lambda>d. 0 < query_norm qv \<and> 0 < doc_length_of e d \<and> 0 < cosine_similarity e qv d)
                    (set_iter (candidates C e query))"
      using m by (simp add: cosine_positive_iff c(1))
    have s': "\<forall>r \<in> set scored. similarity r = cosine_similarity e qv (doc_id r) \<and>
              map_of (se_documents_inv e) (doc_id r) = Some (doc_path r)"
    proof
      fix r assume rin: "r \<in> set scored"
      then have "doc_id r \<in> set (map doc_id scored)" by simp
      then have "0 < cosine e qv (query_norm qv) (doc_id r)" unfolding m by simp
      then have "0 < doc_length_of e (doc_id r) \<and> 0 < query_norm qv"
        by (simp add: cosine_positive_iff)
      then have "cosine e qv (query_norm qv) (doc_id r) = cosine_similarity e qv (doc_id r)"
        by (simp add: cosine_spec)
      then show "similarity r = cosine_similarity e qv (doc_id r) \<and>
              map_of (se_documents_inv e) (doc_id r) = Some (doc_path r)" using s rin by simp
    qed
    show ?thesis using False e' q m' s' r by blast
  qed
qed

lemma search_returns:
  assumes "0 < se_total_docs e"
    "\<forall>d \<in> set (set_iter (candidates C e query)). map_of (se_documents_inv e) d \<noteq> None"
  shows "\<exists>results. search C set_iter e query top_k =
           (fst (get_documents_with_all_terms e (parse_query C e query)), Inr results)"
proof -
  let ?ts = "parse_query C e query"
  let ?e1 = "fst (get_documents_with_all_terms e ?ts)"
  have st: "fst (search C set_iter e query top_k) = ?e1" by (rule search_state)
  have "0 < se_total_docs ?e1" using assms(1) by (simp add: get_documents_frame)
  then obtain qv where q: "build_query_vector ?e1 ?ts = Inr qv"
    using build_query_vector_returns by blast
  have "\<forall>d \<in> set (set_iter (candidates C e query)). map_of (se_documents_inv ?e1) d \<noteq> None"
    using assms(2) by (simp add: get_documents_frame)
  then obtain rs where
    "score_docs ?e1 qv (query_norm qv) (set_iter (candidates C e query)) = Inr rs"
    using score_docs_returns by blast
  then have "\<exists>results. snd (search C set_iter e query top_k) = Inr results"
    using q by (simp add: search_unfold_norm candidates_def)
  then show ?thesis using st by (metis prod.collapse)
qed

lemma slice_to_all: "int (length xs) \<le> k \<Longrightarrow> slice_to xs k = xs"
  by (auto simp: slice_to_def)

lemma ex_two_terms:
  "candidates ex_collab ex_engine ''cat sat'' = [1]"
  "build_query_vector ex_engine (parse_query ex_collab ex_engine ''cat sat'') =
     Inr [(1, ln 3), (2, ln (3 / 2))]"
  "restricted_dot ex_engine [(1, ln 3), (2, ln (3 / 2))] 1 =
     ln 3 * 1.098612 + ln (3 / 2) * 0.405465"
  "query_norm [(1 :: int, ln 3), (2, ln (3 / 2))] = sqrt (ln 3 * ln 3 + ln (3 / 2) * ln (3 / 2))"
  "doc_length_of ex_engine 1 = 1.171047"
  by (simp_all add: candidates_def search_defs ex_engine_def restricted_dot_def lookup_posting_def
      query_norm_def)


lemma ex_no_length:
  "map_of (se_doc_lengths (ex_engine\<lparr>se_doc_lengths := [(2, 0.405465), (3, 1.098612)]\<rparr>)) 1 = None"
  "0 < se_total_docs (ex_engine\<lparr>se_doc_lengths := [(2, 0.405465), (3, 1.098612)]\<rparr>)"
  "candidates ex_collab (ex_engine\<lparr>se_doc_lengths := [(2, 0.405465), (3, 1.098612)]\<rparr>) ''cat sat'' = [1]"
  "build_query_vector (ex_engine\<lparr>se_doc_lengths := [(2, 0.405465), (3, 1.098612)]\<rparr>)
     (parse_query ex_collab (ex_engine\<lparr>se_doc_lengths := [(2, 0.405465), (3, 1.098612)]\<rparr>) ''cat sat'') =
     Inr [(1, ln 3), (2, ln (3 / 2))]"
  "restricted_dot (ex_engine\<lparr>se_doc_lengths := [(2, 0.405465), (3, 1.098612)]\<rparr>)
     [(1, ln 3), (2, ln (3 / 2))] 1 = ln 3 * 1.098612 + ln (3 / 2) * 0.405465"
  "map_of (se_documents_inv (ex_engine\<lparr>se_doc_lengths := [(2, 0.405465), (3, 1.098612)]\<rparr>)) 1 \<noteq> None"
  by (simp_all add: candidates_def search_defs ex_engine_def restricted_dot_def lookup_posting_def)

subsection \<open>Claim C1: ranking\<close>




subsection \<open>Claim C2: conjunctive candidate filtering\<close>

text \<open>
  Claim C2, as the code has it. For a query with at least one surviving term, a document
  is in the candidate set if and only if it holds a posting for every surviving query
  term; if a surviving term has no postings, the candidate set is empty; and a list of
  surviving terms with the same term identifiers in another order (or with other
  repetitions) has the same candidate set.
\<close>

theorem conjunctive_candidates:
  assumes "parsed_terms \<noteq> []"
  shows "(d \<in> candidate_set e parsed_terms \<longleftrightarrow>
            (\<forall>t \<in> set parsed_terms. holds_posting (se_postings e) (term_id t) d)) \<and>
         ((\<exists>t \<in> set parsed_terms. map_of (se_postings e) (term_id t) = None \<or>
              map_of (se_postings e) (term_id t) = Some []) \<longrightarrow>
            candidate_set e parsed_terms = {}) \<and>
         (set (map term_id other_order) = set (map term_id parsed_terms) \<longrightarrow>
            candidate_set e other_order = candidate_set e parsed_terms)"
proof -
  obtain t ts where p: "parsed_terms = t # ts" using assms by (cases parsed_terms) auto
  have iff: "\<And>d. d \<in> candidate_set e parsed_terms \<longleftrightarrow>
            (\<forall>t \<in> set parsed_terms. holds_posting (se_postings e) (term_id t) d)"
    unfolding p by (rule candidate_set_Cons)
  have empty: "candidate_set e parsed_terms = {}"
    if "\<exists>t \<in> set parsed_terms. map_of (se_postings e) (term_id t) = None \<or>
              map_of (se_postings e) (term_id t) = Some []"
    using that iff by (fastforce simp: holds_posting_def)
  have perm: "candidate_set e other_order = candidate_set e parsed_terms"
    if s: "set (map term_id other_order) = set (map term_id parsed_terms)"
  proof -
    have "other_order \<noteq> []" using s assms by auto
    then obtain u us where o: "other_order = u # us" by (cases other_order) auto
    have A: "\<And>d. d \<in> candidate_set e other_order \<longleftrightarrow>
        (\<forall>i \<in> set (map term_id other_order). holds_posting (se_postings e) i d)"
      unfolding o candidate_set_Cons by simp
    have B: "\<And>d. d \<in> candidate_set e parsed_terms \<longleftrightarrow>
        (\<forall>i \<in> set (map term_id parsed_terms). holds_posting (se_postings e) i d)"
      unfolding iff by simp
    show ?thesis by (rule set_eqI) (simp only: A B s)
  qed
  show ?thesis using iff empty perm by blast
qed

text \<open>
  The queries \<^verbatim>\<open>sat cat\<close> and \<^verbatim>\<open>cat sat\<close> on the three documents: the candidate set is
  document 1 for both.
\<close>

theorem conjunctive_candidates_witness:
  "parse_query ex_collab ex_engine ''sat cat'' \<noteq> [] \<and>
   candidate_set ex_engine (parse_query ex_collab ex_engine ''sat cat'') = {1} \<and>
   candidate_set ex_engine (parse_query ex_collab ex_engine ''cat sat'') =
     candidate_set ex_engine (parse_query ex_collab ex_engine ''sat cat'')"
  using conjunctive_candidates[of "parse_query ex_collab ex_engine ''sat cat''" 1 ex_engine
          "parse_query ex_collab ex_engine ''cat sat''"]
  by (simp add: cand_defs)

text \<open>
  The claim as stated, for every query, fails for a query without surviving terms: the
  guard \<^verbatim>\<open>if not parsed_terms: return set()\<close> makes the candidate set empty, while document
  1 holds a posting for every one of the (zero) surviving terms.
\<close>

theorem empty_query_no_candidates:
  "parse_query ex_collab ex_engine [] = [] \<and>
   list_all (\<lambda>t. holds_posting (se_postings ex_engine) (term_id t) 1)
            (parse_query ex_collab ex_engine []) \<and>
   1 \<notin> candidate_set ex_engine (parse_query ex_collab ex_engine [])"
  by (simp add: cand_defs)

subsection \<open>Claim C3: scoring\<close>



subsection \<open>Claim C8: the query path and the index state\<close>

text \<open>
  Claim C8 fails on the code. The first query term is looked up with
  \<^verbatim>\<open>self.postings[first_term_id]\<close> (line 150) on a \<^verbatim>\<open>defaultdict(dict)\<close> (line 55): when the
  term table lists the term and the postings store has no entry for its identifier, the
  lookup stores an empty dictionary under it, and the postings store after the call is
  not the one before the call. The loop over the other terms (lines 155-160) tests
  \<^verbatim>\<open>term_id in self.postings\<close> first and stores nothing.
\<close>

theorem search_inserts_empty_postings:
  "search ex_collab (\<lambda>ds. ds) orphan_engine ''cat'' 20 =
     (orphan_engine\<lparr>se_postings := [(1, [])]\<rparr>, Inr []) \<and>
   se_postings (fst (search ex_collab (\<lambda>ds. ds) orphan_engine ''cat'' 20)) \<noteq> se_postings orphan_engine"
  by (simp add: search_defs orphan_engine_def)

subsection \<open>Claim C10: a document without a stored length\<close>

text \<open>
  Claim C10. For a document whose identifier is absent from the document-length table,
  the norm \<^verbatim>\<open>search\<close> uses is 1 and the score is the dot product divided by 1 times the
  query vector norm; when such a document is among the results its similarity is that
  quotient and is positive. \<^verbatim>\<open>search\<close> returns without an exception whatever the
  document-length table holds, when the document table is not empty and every candidate
  has a path. And whenever it returns and such a document is a candidate, the document is
  scored exactly when the query vector norm is positive and the dot product over 1 times
  that norm is positive, with that quotient as its similarity; the results are the slice
  of the stable sort of the scored documents, so the document is returned with that
  similarity whenever the result limit is not below the number of candidates.
\<close>

theorem missing_length_defaults_to_one:
  assumes "map_of (se_doc_lengths e) d = None"
  shows "doc_length_of e d = 1 \<and>
         (0 < ql \<longrightarrow> cosine e qv ql d = restricted_dot e qv d / (1 * ql)) \<and>
         (search C set_iter e query top_k = (e', Inr results) \<longrightarrow> r \<in> set results \<longrightarrow> doc_id r = d \<longrightarrow>
            (\<exists>qv'. build_query_vector e (parse_query C e query) = Inr qv' \<and> 0 < similarity r \<and>
               similarity r = restricted_dot e qv' d / (1 * sqrt (\<Sum>w\<leftarrow>map snd qv'. w * w)))) \<and>
         (0 < se_total_docs e \<and>
            (\<forall>d' \<in> set (set_iter (candidates C e query)). map_of (se_documents_inv e) d' \<noteq> None) \<longrightarrow>
            (\<exists>rs. snd (search C set_iter e query top_k) = Inr rs)) \<and>
         (search C set_iter e query top_k = (e', Inr results) \<longrightarrow>
            d \<in> set (set_iter (candidates C e query)) \<longrightarrow> candidates C e query \<noteq> [] \<longrightarrow>
            (\<exists>qv' scored.
               build_query_vector e (parse_query C e query) = Inr qv' \<and>
               results = slice_to (sort_key (\<lambda>r. - similarity r) scored) top_k \<and>
               (int (length scored) \<le> top_k \<longrightarrow> set results = set scored) \<and>
               (d \<in> doc_id ` set scored \<longleftrightarrow>
                  0 < query_norm qv' \<and> 0 < restricted_dot e qv' d / (query_norm qv' * 1)) \<and>
               (\<forall>r' \<in> set scored. doc_id r' = d \<longrightarrow>
                  similarity r' = restricted_dot e qv' d / (query_norm qv' * 1) \<and> 0 < similarity r') \<and>
               (int (length (set_iter (candidates C e query))) \<le> top_k \<longrightarrow>
                  0 < query_norm qv' \<longrightarrow> 0 < restricted_dot e qv' d \<longrightarrow>
                  (\<exists>r' \<in> set results. doc_id r' = d \<and>
                     similarity r' = restricted_dot e qv' d / (query_norm qv' * 1)))))"
proof -
  have 1: "doc_length_of e d = 1" using assms by (simp add: doc_length_of_def)
  have 2: "0 < ql \<longrightarrow> cosine e qv ql d = restricted_dot e qv d / (1 * ql)"
    by (simp add: cosine_def Let_def 1 dot_product_restricted)
  have 3: "search C set_iter e query top_k = (e', Inr results) \<longrightarrow> r \<in> set results \<longrightarrow> doc_id r = d \<longrightarrow>
            (\<exists>qv'. build_query_vector e (parse_query C e query) = Inr qv' \<and> 0 < similarity r \<and>
               similarity r = restricted_dot e qv' d / (1 * sqrt (\<Sum>w\<leftarrow>map snd qv'. w * w)))"
  proof (intro impI)
    assume s: "search C set_iter e query top_k = (e', Inr results)" and r: "r \<in> set results"
      and d: "doc_id r = d"
    from search_result_score[OF s r] obtain qv' where
      "build_query_vector e (parse_query C e query) = Inr qv'"
      "similarity r = restricted_dot e qv' (doc_id r) /
          (sqrt (\<Sum>w\<leftarrow>map snd qv'. w * w) * doc_length_of e (doc_id r))"
      "0 < similarity r" by blast
    then show "\<exists>qv'. build_query_vector e (parse_query C e query) = Inr qv' \<and> 0 < similarity r \<and>
               similarity r = restricted_dot e qv' d / (1 * sqrt (\<Sum>w\<leftarrow>map snd qv'. w * w))"
      using d 1 by auto
  qed
  have 4: "0 < se_total_docs e \<and>
            (\<forall>d' \<in> set (set_iter (candidates C e query)). map_of (se_documents_inv e) d' \<noteq> None) \<longrightarrow>
            (\<exists>rs. snd (search C set_iter e query top_k) = Inr rs)"
    using search_returns[of e set_iter C query top_k] by auto
  have 5: "search C set_iter e query top_k = (e', Inr results) \<longrightarrow>
            d \<in> set (set_iter (candidates C e query)) \<longrightarrow> candidates C e query \<noteq> [] \<longrightarrow>
            (\<exists>qv' scored.
               build_query_vector e (parse_query C e query) = Inr qv' \<and>
               results = slice_to (sort_key (\<lambda>r. - similarity r) scored) top_k \<and>
               (int (length scored) \<le> top_k \<longrightarrow> set results = set scored) \<and>
               (d \<in> doc_id ` set scored \<longleftrightarrow>
                  0 < query_norm qv' \<and> 0 < restricted_dot e qv' d / (query_norm qv' * 1)) \<and>
               (\<forall>r' \<in> set scored. doc_id r' = d \<longrightarrow>
                  similarity r' = restricted_dot e qv' d / (query_norm qv' * 1) \<and> 0 < similarity r') \<and>
               (int (length (set_iter (candidates C e query))) \<le> top_k \<longrightarrow>
                  0 < query_norm qv' \<longrightarrow> 0 < restricted_dot e qv' d \<longrightarrow>
                  (\<exists>r' \<in> set results. doc_id r' = d \<and>
                     similarity r' = restricted_dot e qv' d / (query_norm qv' * 1))))"
  proof (intro impI)
    assume s: "search C set_iter e query top_k = (e', Inr results)"
      and din: "d \<in> set (set_iter (candidates C e query))" and c: "candidates C e query \<noteq> []"
    from search_spec[OF s] c obtain qv' scored where
      q: "build_query_vector e (parse_query C e query) = Inr qv'" and
      m: "map doc_id scored =
           filter (\<lambda>d. 0 < query_norm qv' \<and> 0 < doc_length_of e d \<and> 0 < cosine_similarity e qv' d)
                  (set_iter (candidates C e query))" and
      v: "\<forall>r \<in> set scored. similarity r = cosine_similarity e qv' (doc_id r) \<and>
                map_of (se_documents_inv e) (doc_id r) = Some (doc_path r)" and
      rs: "results = slice_to (sort_key (\<lambda>r. - similarity r) scored) top_k"
      by blast
    have a: "int (length scored) \<le> top_k \<longrightarrow> set results = set scored"
      by (simp add: rs slice_to_all)
    have "d \<in> doc_id ` set scored \<longleftrightarrow> d \<in> set (map doc_id scored)" by simp
    also have "\<dots> \<longleftrightarrow> 0 < query_norm qv' \<and> 0 < cosine_similarity e qv' d"
      unfolding m using din by (simp add: 1)
    finally have b: "d \<in> doc_id ` set scored \<longleftrightarrow>
        0 < query_norm qv' \<and> 0 < restricted_dot e qv' d / (query_norm qv' * 1)"
      by (simp add: cosine_similarity_def 1)
    have w: "\<forall>r' \<in> set scored. doc_id r' = d \<longrightarrow>
        similarity r' = restricted_dot e qv' d / (query_norm qv' * 1) \<and> 0 < similarity r'"
    proof (intro ballI impI)
      fix r' assume r': "r' \<in> set scored" and dr: "doc_id r' = d"
      have sim: "similarity r' = restricted_dot e qv' d / (query_norm qv' * 1)"
        using v r' dr by (simp add: cosine_similarity_def 1)
      have "d \<in> doc_id ` set scored" using r' dr by force
      then have "0 < restricted_dot e qv' d / (query_norm qv' * 1)" using b by simp
      then show "similarity r' = restricted_dot e qv' d / (query_norm qv' * 1) \<and> 0 < similarity r'"
        using sim by simp
    qed
    have x: "int (length (set_iter (candidates C e query))) \<le> top_k \<longrightarrow>
        0 < query_norm qv' \<longrightarrow> 0 < restricted_dot e qv' d \<longrightarrow>
        (\<exists>r' \<in> set results. doc_id r' = d \<and>
           similarity r' = restricted_dot e qv' d / (query_norm qv' * 1))"
    proof (intro impI)
      assume k: "int (length (set_iter (candidates C e query))) \<le> top_k"
        and pn: "0 < query_norm qv'" and pd: "0 < restricted_dot e qv' d"
      have "length scored = length (map doc_id scored)" by simp
      also have "\<dots> \<le> length (set_iter (candidates C e query))" unfolding m by (rule length_filter_le)
      finally have "int (length scored) \<le> top_k" using k by simp
      then have eq: "set results = set scored" using a by simp
      have "0 < restricted_dot e qv' d / (query_norm qv' * 1)" using pn pd by simp
      then have "d \<in> doc_id ` set scored" using b pn by simp
      then obtain r' where r': "r' \<in> set scored" "doc_id r' = d" by auto
      then have "similarity r' = restricted_dot e qv' d / (query_norm qv' * 1)" using w by blast
      then show "\<exists>r' \<in> set results. doc_id r' = d \<and>
           similarity r' = restricted_dot e qv' d / (query_norm qv' * 1)"
        using r' eq by blast
    qed
    show "\<exists>qv' scored.
               build_query_vector e (parse_query C e query) = Inr qv' \<and>
               results = slice_to (sort_key (\<lambda>r. - similarity r) scored) top_k \<and>
               (int (length scored) \<le> top_k \<longrightarrow> set results = set scored) \<and>
               (d \<in> doc_id ` set scored \<longleftrightarrow>
                  0 < query_norm qv' \<and> 0 < restricted_dot e qv' d / (query_norm qv' * 1)) \<and>
               (\<forall>r' \<in> set scored. doc_id r' = d \<longrightarrow>
                  similarity r' = restricted_dot e qv' d / (query_norm qv' * 1) \<and> 0 < similarity r') \<and>
               (int (length (set_iter (candidates C e query))) \<le> top_k \<longrightarrow>
                  0 < query_norm qv' \<longrightarrow> 0 < restricted_dot e qv' d \<longrightarrow>
                  (\<exists>r' \<in> set results. doc_id r' = d \<and>
                     similarity r' = restricted_dot e qv' d / (query_norm qv' * 1)))"
      using q rs a b w x by blast
  qed
  show ?thesis using 1 2 3 4 5 by blast
qed

text \<open>
  The three documents without the length of document 1, query \<^verbatim>\<open>cat sat\<close>: document 1 is
  the one candidate and is returned with its dot product over 1 times the query norm.
\<close>

theorem missing_length_witness:
  "map_of (se_doc_lengths (ex_engine\<lparr>se_doc_lengths := [(2, 0.405465), (3, 1.098612)]\<rparr>)) 1 = None \<and>
   0 < se_total_docs (ex_engine\<lparr>se_doc_lengths := [(2, 0.405465), (3, 1.098612)]\<rparr>) \<and>
   candidates ex_collab (ex_engine\<lparr>se_doc_lengths := [(2, 0.405465), (3, 1.098612)]\<rparr>) ''cat sat'' = [1] \<and>
   doc_length_of (ex_engine\<lparr>se_doc_lengths := [(2, 0.405465), (3, 1.098612)]\<rparr>) 1 = 1 \<and>
   (\<exists>results.
      snd (search ex_collab (\<lambda>ds. ds) (ex_engine\<lparr>se_doc_lengths := [(2, 0.405465), (3, 1.098612)]\<rparr>)
             ''cat sat'' 20) = Inr results \<and>
      (\<exists>r \<in> set results. doc_id r = 1 \<and>
         similarity r =
           (ln 3 * 1.098612 + ln (3 / 2) * 0.405465) /
           (sqrt (ln 3 * ln 3 + ln (3 / 2) * ln (3 / 2)) * 1)))"
proof -
  let ?E = "ex_engine\<lparr>se_doc_lengths := [(2, 0.405465), (3, 1.098612)]\<rparr>"
  let ?S = "search ex_collab (\<lambda>ds. ds) ?E ''cat sat'' 20"
  have inv: "\<forall>d' \<in> set (candidates ex_collab ?E ''cat sat''). map_of (se_documents_inv ?E) d' \<noteq> None"
    unfolding ex_no_length(3) using ex_no_length(6) by simp
  note T0 = missing_length_defaults_to_one[OF ex_no_length(1),
      where C = ex_collab and set_iter = "\<lambda>ds. ds" and query = "''cat sat''" and top_k = 20]
  have len: "doc_length_of ?E 1 = 1" by (rule conjunct1[OF T0])
  have "\<exists>rs. snd ?S = Inr rs"
    by (rule mp[OF conjunct1[OF conjunct2[OF conjunct2[OF conjunct2[OF T0]]]]])
       (use ex_no_length(2) inv in blast)
  then obtain results where res: "snd ?S = Inr results" ..
  then have s: "?S = (fst ?S, Inr results)" by (simp add: prod_eq_iff)
  have din: "1 \<in> set (candidates ex_collab ?E ''cat sat'')" unfolding ex_no_length(3) by simp
  have c: "candidates ex_collab ?E ''cat sat'' \<noteq> []" unfolding ex_no_length(3) by simp
  note B = conjunct2[OF conjunct2[OF conjunct2[OF conjunct2[OF T0]]], rule_format, OF s din c]
  from B obtain qv scored where
    q: "build_query_vector ?E (parse_query ex_collab ?E ''cat sat'') = Inr qv" and
    x: "int (length (candidates ex_collab ?E ''cat sat'')) \<le> 20 \<longrightarrow>
        0 < query_norm qv \<longrightarrow> 0 < restricted_dot ?E qv 1 \<longrightarrow>
        (\<exists>r' \<in> set results. doc_id r' = 1 \<and>
           similarity r' = restricted_dot ?E qv 1 / (query_norm qv * 1))"
    by blast
  have qv: "qv = [(1, ln 3), (2, ln (3 / 2))]" using q ex_no_length(4) by simp
  have l3: "0 < ln (3 :: real)" and l32: "0 < ln (3 / 2 :: real)" by simp_all
  have n1: "query_norm qv = sqrt (ln 3 * ln 3 + ln (3 / 2) * ln (3 / 2))"
    unfolding qv by (rule ex_two_terms(4))
  have d1: "restricted_dot ?E qv 1 = ln 3 * 1.098612 + ln (3 / 2) * 0.405465"
    unfolding qv by (rule ex_no_length(5))
  have pn: "0 < query_norm qv" unfolding n1 using l3 l32 by (simp add: add_pos_pos)
  have pd: "0 < restricted_dot ?E qv 1" unfolding d1 using l3 l32 by (simp add: add_pos_pos)
  have k: "int (length (candidates ex_collab ?E ''cat sat'')) \<le> 20" unfolding ex_no_length(3) by simp
  from x k pn pd obtain r where r: "r \<in> set results" "doc_id r = 1"
    "similarity r = restricted_dot ?E qv 1 / (query_norm qv * 1)" by blast
  have sim: "similarity r =
           (ln 3 * 1.098612 + ln (3 / 2) * 0.405465) /
           (sqrt (ln 3 * ln 3 + ln (3 / 2) * ln (3 / 2)) * 1)"
    by (simp only: r(3) d1 n1)
  show ?thesis using ex_no_length(1,2,3) len res r(1,2) sim by blast
qed

end
